theory Spec2Isabelle
  imports Main
begin

section \<open>Batched migrations: data model\<close>

text \<open>
  The development follows \<^verbatim>\<open>batched-migrations-runner.ts\<close> (class
  \<^verbatim>\<open>BatchedMigrationsRunner\<close> and the module-level control surface). Asynchronous
  methods are modelled as state-passing functions: a method takes the runner object and
  the world outside it (record store, lock service, user tables, migration modules) and
  returns its result together with both, updated. A \<^verbatim>\<open>throw\<close> is the left
  injection of the result; the state reached when the exception leaves the method is
  returned with it.
\<close>

text \<open>A JavaScript value that may be \<^verbatim>\<open>undefined\<close> (absent), \<^verbatim>\<open>null\<close> or present.\<close>

datatype 'a nullable = Undefined | Null | Val 'a

text \<open>The nullish coalescing operator \<^verbatim>\<open>a ?? b\<close>.\<close>

fun nullish :: "'a nullable \<Rightarrow> 'a \<Rightarrow> 'a" where
  "nullish (Val v) d = v"
| "nullish Undefined d = d"
| "nullish Null d = d"

datatype BatchedMigrationStatus =
  Pending | Running | Paused | Finalizing | Succeeded | Failed

datatype error =
    NoMigrationFound string
  | InvalidMigrationClass string
  | NotMarkedSucceeded string BatchedMigrationStatus
  | AlreadyRunning
  | NotInitialized
  | AlreadyInitialized
  | DuplicateKey
  | RowNotFound
  | External string

text \<open>What \<^verbatim>\<open>getParameters()\<close> of a migration returns.\<close>

record BatchedMigrationParameters =
  param_min :: "int nullable"
  param_max :: "int nullable"
  param_batchSize :: "int nullable"

text \<open>
  A user-authored migration: \<^verbatim>\<open>getParameters\<close> reads the user tables,
  \<^verbatim>\<open>runBatch(start, end)\<close> changes them and may throw.
\<close>

record 'db BatchedMigration =
  getParameters :: "'db \<Rightarrow> error + BatchedMigrationParameters"
  runBatch :: "int \<Rightarrow> int \<Rightarrow> 'db \<Rightarrow> error option \<times> 'db"

record MigrationFile =
  mf_directory :: string
  mf_filename :: string
  mf_timestamp :: string

text \<open>What the dynamic \<^verbatim>\<open>import\<close> of a migration module yields.\<close>

datatype 'db module_export =
    ImportFails error
  | NotAMigration
  | MigrationClass "'db BatchedMigration"

text \<open>The object handed to \<^verbatim>\<open>insertBatchedMigration\<close>, and a stored row.\<close>

record NewBatchedMigration =
  project :: string
  filename :: string
  timestamp :: string
  batch_size :: int
  min_value :: int
  max_value :: int
  status :: BatchedMigrationStatus

record BatchedMigrationRow = NewBatchedMigration +
  row_id :: nat
  cursor :: int
  updated_at :: int

record BatchedMigrationRunnerOptions =
  opt_project :: string
  opt_directories :: "string list"
  opt_runDurationMs :: "int option"

text \<open>
  A listener registered for the \<^verbatim>\<open>'error'\<close> event of the runner, which is an
  \<^verbatim>\<open>EventEmitter\<close>: user code that returns or throws.
\<close>

datatype error_listener = Returns | Throws error

text \<open>
  The fields of a \<^verbatim>\<open>BatchedMigrationsRunner\<close> object. \<open>aborted\<close> is the state of
  the signal of its abort controller; \<open>listeners\<close> are the listeners registered for its
  \<^verbatim>\<open>'error'\<close> event, of which the class registers none itself; \<open>events\<close> are the
  errors that were emitted to at least one listener.
\<close>

record runner_obj =
  options :: BatchedMigrationRunnerOptions
  running :: bool
  migrationFiles :: "MigrationFile list option"
  aborted :: bool
  listeners :: "error_listener list"
  events :: "error list"

text \<open>
  Everything outside the runner object: the \<^verbatim>\<open>batched_migrations\<close> table (rows in
  insertion order; the id of a row is its position, rows are never deleted), a logical
  clock for \<^verbatim>\<open>CURRENT_TIMESTAMP\<close> and elapsed time, the named locks currently held by other processes, the user tables,
  and two logs of what this process did: the batches it invoked (row id, start, end) and
  the locks it acquired. \<open>disk\<close> is what reading the migration directories returns,
  \<open>modules\<close> what importing a migration file returns, \<open>batch_ms\<close> how long one batch
  takes, \<open>status_default\<close> the default of the status column of the table.
\<close>

record 'db world =
  rows :: "BatchedMigrationRow list"
  clock :: int
  held_elsewhere :: "string list"
  db :: 'db
  batch_log :: "(nat \<times> int \<times> int) list"
  lock_log :: "string list"
  disk :: "string list \<Rightarrow> string list \<Rightarrow> error + MigrationFile list"
  modules :: "MigrationFile \<Rightarrow> 'db module_export"
  batch_ms :: int
  status_default :: BatchedMigrationStatus

section \<open>The record store\<close>

text \<open>
  The helper module \<^verbatim>\<open>batched-migration.ts\<close> is not among the sources; its
  statements in \<^verbatim>\<open>batched-migration.sql\<close> are the insert, the select of all rows and
  the status update. The declaration of the table is not among the sources either.
\<close>

definition row_at :: "'db world \<Rightarrow> nat \<Rightarrow> BatchedMigrationRow option" where
  "row_at w i = (if i < length (rows w) then Some (rows w ! i) else None)"

definition put_row :: "nat \<Rightarrow> BatchedMigrationRow \<Rightarrow> 'db world \<Rightarrow> 'db world" where
  "put_row i m w = w\<lparr>rows := (rows w)[i := m]\<rparr>"

definition tick :: "'db world \<Rightarrow> 'db world" where
  "tick w = w\<lparr>clock := clock w + 1\<rparr>"

text \<open>
  Modelled from the spec: the table \<^verbatim>\<open>batched_migrations\<close>, whose declaration is not
  among the sources. A row that is inserted with the six columns below gets a fresh id
  (its position in the table), the default of the status column, and a cursor before its
  range (\<open>min_value - 1\<close>); the pair of project and timestamp is a unique key, so a
  second insert for it fails with a duplicate key.
\<close>

definition new_row ::
  "string \<Rightarrow> string \<Rightarrow> string \<Rightarrow> int \<Rightarrow> int \<Rightarrow> int \<Rightarrow> 'db world \<Rightarrow> BatchedMigrationRow" where
  "new_row p f t bs mn mx w =
     \<lparr>project = p, filename = f, timestamp = t, batch_size = bs, min_value = mn,
      max_value = mx, status = status_default w, row_id = length (rows w), cursor = mn - 1,
      updated_at = clock w\<rparr>"

text \<open>
  \<^verbatim>\<open>insertBatchedMigration\<close> runs the statement \<^verbatim>\<open>insert_batched_migration\<close> of
  \<^verbatim>\<open>batched-migration.sql\<close>, which inserts the six columns \<^verbatim>\<open>project\<close>,
  \<^verbatim>\<open>filename\<close>, \<^verbatim>\<open>timestamp\<close>, \<^verbatim>\<open>batch_size\<close>, \<^verbatim>\<open>min_value\<close> and
  \<^verbatim>\<open>max_value\<close>. The statement has no status column: the status in the record that
  \<^verbatim>\<open>enqueueBatchedMigration\<close> passes along is not stored.
\<close>

definition insertBatchedMigration ::
  "NewBatchedMigration \<Rightarrow> 'db world \<Rightarrow> error + 'db world" where
  "insertBatchedMigration n w =
     (if \<exists>r \<in> set (rows w). project r = project n \<and> timestamp r = timestamp n
      then Inl DuplicateKey
      else Inr (tick (w\<lparr>rows := rows w @
                    [new_row (project n) (filename n) (timestamp n) (batch_size n)
                       (min_value n) (max_value n) w]\<rparr>)))"

text \<open>
  Modelled from the spec: \<^verbatim>\<open>selectBatchedMigrationForTimestamp\<close> of
  \<^verbatim>\<open>batched-migration.ts\<close>; fails when no row has the project and timestamp.
\<close>

definition selectBatchedMigrationForTimestamp ::
  "string \<Rightarrow> string \<Rightarrow> 'db world \<Rightarrow> error + BatchedMigrationRow" where
  "selectBatchedMigrationForTimestamp p ts w =
     (case find (\<lambda>r. project r = p \<and> timestamp r = ts) (rows w) of
        None \<Rightarrow> Inl RowNotFound
      | Some r \<Rightarrow> Inr r)"

text \<open>
  Modelled from the spec: \<^verbatim>\<open>updateBatchedMigrationStatus\<close> of
  \<^verbatim>\<open>batched-migration.ts\<close>. As in the statement
  \<^verbatim>\<open>update_batched_migration_status\<close>, the status of the row with the id is set and
  its \<^verbatim>\<open>updated_at\<close> refreshed; the caller receives the updated row.
\<close>

definition updateBatchedMigrationStatus ::
  "nat \<Rightarrow> BatchedMigrationStatus \<Rightarrow> 'db world \<Rightarrow> (error + BatchedMigrationRow) \<times> 'db world" where
  "updateBatchedMigrationStatus i s w =
     (case row_at w i of
        None \<Rightarrow> (Inl RowNotFound, w)
      | Some r \<Rightarrow>
          (let r' = r\<lparr>status := s, updated_at := clock w\<rparr>
           in (Inr r', tick (put_row i r' w))))"

section \<open>The runner class\<close>

definition DEFAULT_MIN_VALUE :: int where
  "DEFAULT_MIN_VALUE = 1"

definition DEFAULT_BATCH_SIZE :: int where
  "DEFAULT_BATCH_SIZE = 1000"

definition EXTENSIONS :: "string list" where
  "EXTENSIONS = [''.js'', ''.ts'', ''.mjs'', ''.mts'']"

definition lockNameForTimestamp :: "runner_obj \<Rightarrow> string \<Rightarrow> string" where
  "lockNameForTimestamp r ts =
     ''batched-migrations:'' @ opt_project (options r) @ '':'' @ ts"

text \<open>\<^verbatim>\<open>identifier.split('_')[0]\<close>: the part before the first underscore.\<close>

definition timestamp_of :: "string \<Rightarrow> string" where
  "timestamp_of identifier = takeWhile (\<lambda>c. c \<noteq> CHR ''_'') identifier"

definition getMigrationFiles ::
  "runner_obj \<Rightarrow> 'db world \<Rightarrow> (error + MigrationFile list) \<times> runner_obj" where
  "getMigrationFiles r w =
     (case migrationFiles r of
        Some fs \<Rightarrow> (Inr fs, r)
      | None \<Rightarrow>
          (case disk w (opt_directories (options r)) EXTENSIONS of
             Inl e \<Rightarrow> (Inl e, r)
           | Inr fs \<Rightarrow> (Inr fs, r\<lparr>migrationFiles := Some fs\<rparr>)))"

definition getMigrationForIdentifier ::
  "string \<Rightarrow> runner_obj \<Rightarrow> 'db world \<Rightarrow> (error + MigrationFile option) \<times> runner_obj" where
  "getMigrationForIdentifier identifier r w =
     (let ts = timestamp_of identifier
      in case getMigrationFiles r w of
           (Inl e, r') \<Rightarrow> (Inl e, r')
         | (Inr fs, r') \<Rightarrow> (Inr (find (\<lambda>m. mf_timestamp m = ts) fs), r'))"

definition loadMigrationClass ::
  "MigrationFile \<Rightarrow> 'db world \<Rightarrow> error + 'db BatchedMigration" where
  "loadMigrationClass mf w =
     (case modules w mf of
        ImportFails e \<Rightarrow> Inl e
      | NotAMigration \<Rightarrow> Inl (InvalidMigrationClass (mf_directory mf @ ''/'' @ mf_filename mf))
      | MigrationClass c \<Rightarrow> Inr c)"

text \<open>The object literal that \<^verbatim>\<open>enqueueBatchedMigration\<close> passes to the store.\<close>

definition enqueue_record ::
  "runner_obj \<Rightarrow> MigrationFile \<Rightarrow> BatchedMigrationParameters \<Rightarrow> NewBatchedMigration" where
  "enqueue_record r mf ps =
     (let st = (if param_max ps = Null then Succeeded else Pending);
          minValue = nullish (param_min ps) DEFAULT_MIN_VALUE;
          maxValue = nullish (param_max ps) minValue;
          batchSize = nullish (param_batchSize ps) DEFAULT_BATCH_SIZE
      in \<lparr>project = opt_project (options r),
          filename = mf_filename mf,
          timestamp = mf_timestamp mf,
          batch_size = batchSize,
          min_value = minValue,
          max_value = maxValue,
          status = st\<rparr>)"

definition enqueueBatchedMigration ::
  "string \<Rightarrow> runner_obj \<Rightarrow> 'db world \<Rightarrow> (error + unit) \<times> runner_obj \<times> 'db world" where
  "enqueueBatchedMigration identifier r w =
     (case getMigrationForIdentifier identifier r w of
        (Inl e, r') \<Rightarrow> (Inl e, r', w)
      | (Inr None, r') \<Rightarrow> (Inl (NoMigrationFound identifier), r', w)
      | (Inr (Some mf), r') \<Rightarrow>
          (case loadMigrationClass mf w of
             Inl e \<Rightarrow> (Inl e, r', w)
           | Inr migration \<Rightarrow>
               (case getParameters migration (db w) of
                  Inl e \<Rightarrow> (Inl e, r', w)
                | Inr ps \<Rightarrow>
                    (case insertBatchedMigration (enqueue_record r' mf ps) w of
                       Inl e \<Rightarrow> (Inl e, r', w)
                     | Inr w' \<Rightarrow> (Inr (), r', w')))))"

section \<open>The batch runner\<close>

record RunOptions =
  run_signal :: "bool option"
  run_durationMs :: "int option"

type_synonym 'db runner_fn =
  "RunOptions \<Rightarrow> BatchedMigrationRow \<Rightarrow> 'db BatchedMigration \<Rightarrow> 'db world
     \<Rightarrow> ((error + unit) \<times> 'db world) option"

text \<open>
  Modelled from the spec: the next subrange of the batch runner,
  \<open>[cursor+1, min(cursor+batch_size, max_value)]\<close>, and its check of the time budget.
\<close>

definition next_batch :: "BatchedMigrationRow \<Rightarrow> int \<times> int" where
  "next_batch m = (cursor m + 1, min (cursor m + batch_size m) (max_value m))"

definition past_deadline :: "int option \<Rightarrow> 'db world \<Rightarrow> bool" where
  "past_deadline dl w = (case dl of None \<Rightarrow> False | Some d \<Rightarrow> d \<le> clock w)"

text \<open>
  Modelled from the spec: \<^verbatim>\<open>BatchedMigrationRunner.run\<close> of
  \<^verbatim>\<open>batched-migration-runner.ts\<close>, which is not among the sources. The runner
  drives one record forward: when the cursor has reached \<open>max_value\<close> the record
  becomes \<open>succeeded\<close>; before starting each batch it checks the time budget and the
  cancellation signal and stops with the status left as it is; otherwise it invokes the
  batch function on the next subrange and, on success, persists the new cursor. A failing
  batch is not retried: the error propagates to the caller and the cursor stays. The first
  argument bounds the number of batches of one call; \<open>None\<close> is a call that has not
  returned within that bound.
\<close>

fun run_batches ::
  "nat \<Rightarrow> bool \<Rightarrow> int option \<Rightarrow> nat \<Rightarrow> 'db BatchedMigration \<Rightarrow> 'db world
     \<Rightarrow> ((error + unit) \<times> 'db world) option" where
  "run_batches 0 cancelled dl i impl w = None"
| "run_batches (Suc n) cancelled dl i impl w =
     (case row_at w i of
        None \<Rightarrow> Some (Inl RowNotFound, w)
      | Some m \<Rightarrow>
          if max_value m \<le> cursor m then
            (case updateBatchedMigrationStatus i Succeeded w of
               (Inl e, w') \<Rightarrow> Some (Inl e, w')
             | (Inr _, w') \<Rightarrow> Some (Inr (), w'))
          else if cancelled \<or> past_deadline dl w then Some (Inr (), w)
          else
            (case runBatch impl (fst (next_batch m)) (snd (next_batch m)) (db w) of
               (Some e, d') \<Rightarrow>
                 Some (Inl e,
                   w\<lparr>db := d',
                     batch_log := batch_log w @ [(i, next_batch m)],
                     clock := clock w + batch_ms w\<rparr>)
             | (None, d') \<Rightarrow>
                 run_batches n cancelled dl i impl
                   (put_row i (m\<lparr>cursor := snd (next_batch m)\<rparr>)
                      (w\<lparr>db := d',
                         batch_log := batch_log w @ [(i, next_batch m)],
                         clock := clock w + batch_ms w\<rparr>))))"

definition BatchedMigrationRunner_run :: "nat \<Rightarrow> 'db runner_fn" where
  "BatchedMigrationRunner_run fuel opts migration impl w =
     run_batches fuel (run_signal opts = Some True)
       (map_option (\<lambda>d. clock w + d) (run_durationMs opts)) (row_id migration) impl w"

section \<open>Finalization\<close>

text \<open>
  \<^verbatim>\<open>finalizeBatchedMigration\<close>. The batch runner is a parameter; the method calls
  it with no options, that is with neither signal nor time limit.
\<close>

definition finalizeBatchedMigration ::
  "'db runner_fn \<Rightarrow> string \<Rightarrow> runner_obj \<Rightarrow> 'db world
     \<Rightarrow> ((error + unit) \<times> runner_obj \<times> 'db world) option" where
  "finalizeBatchedMigration run identifier r w =
     (let ts = timestamp_of identifier
      in case selectBatchedMigrationForTimestamp (opt_project (options r)) ts w of
           Inl e \<Rightarrow> Some (Inl e, r, w)
         | Inr migration \<Rightarrow>
             if status migration = Succeeded then Some (Inr (), r, w)
             else
               (case (if status migration \<noteq> Finalizing
                      then updateBatchedMigrationStatus (row_id migration) Finalizing w
                      else (Inr migration, w)) of
                  (Inl e, w1) \<Rightarrow> Some (Inl e, r, w1)
                | (Inr migration1, w1) \<Rightarrow>
                    (case getMigrationForIdentifier identifier r w1 of
                       (Inl e, r1) \<Rightarrow> Some (Inl e, r1, w1)
                     | (Inr None, r1) \<Rightarrow> Some (Inl (NoMigrationFound identifier), r1, w1)
                     | (Inr (Some mf), r1) \<Rightarrow>
                         (case loadMigrationClass mf w1 of
                            Inl e \<Rightarrow> Some (Inl e, r1, w1)
                          | Inr impl \<Rightarrow>
                              (case run \<lparr>run_signal = None, run_durationMs = None\<rparr>
                                      migration1 impl w1 of
                                 None \<Rightarrow> None
                               | Some (Inl e, w2) \<Rightarrow> Some (Inl e, r1, w2)
                               | Some (Inr u, w2) \<Rightarrow>
                                   (case selectBatchedMigrationForTimestamp
                                           (opt_project (options r1)) ts w2 of
                                      Inl e \<Rightarrow> Some (Inl e, r1, w2)
                                    | Inr m2 \<Rightarrow>
                                        if status m2 = Succeeded then Some (Inr (), r1, w2)
                                        else Some (Inl (NotMarkedSucceeded identifier (status m2)),
                                                   r1, w2)))))))"

section \<open>The scheduling loop\<close>

text \<open>
  Modelled from the spec: the statement \<^verbatim>\<open>select_or_start_running_migration\<close>
  of \<^verbatim>\<open>batched-migrations-runner.sql\<close>, which is not among the sources. It finds
  the oldest (lowest id) row of the project whose status is \<open>pending\<close> or
  \<open>running\<close>, turns a \<open>pending\<close> match into \<open>running\<close>, and returns it, or nothing.
\<close>

definition getOrStartMigration ::
  "runner_obj \<Rightarrow> 'db world \<Rightarrow> BatchedMigrationRow option \<times> 'db world" where
  "getOrStartMigration r w =
     (case find (\<lambda>m. project m = opt_project (options r)
                     \<and> (status m = Pending \<or> status m = Running)) (rows w) of
        None \<Rightarrow> (None, w)
      | Some m \<Rightarrow>
          if status m = Pending then
            (let m' = m\<lparr>status := Running, updated_at := clock w\<rparr>
             in (Some m', tick (put_row (row_id m) m' w)))
          else (Some m, w))"

text \<open>
  Modelled from the spec: \<^verbatim>\<open>tryWithLock\<close> of the named-locks package, the
  advisory-lock primitive: acquire the named lock, run the function, release on exit. When
  another process holds the lock, the function is not run and the call returns. The state
  threaded through the function carries the local variable \<^verbatim>\<open>didWork\<close> that the
  closure in \<^verbatim>\<open>maybePerformWork\<close> assigns.
\<close>

definition tryWithLock ::
  "string \<Rightarrow> (bool \<times> runner_obj \<times> 'db world \<Rightarrow> ((error + unit) \<times> bool \<times> runner_obj \<times> 'db world) option)
     \<Rightarrow> bool \<times> runner_obj \<times> 'db world \<Rightarrow> ((error + unit) \<times> bool \<times> runner_obj \<times> 'db world) option" where
  "tryWithLock name body s =
     (case s of (dw, r, w) \<Rightarrow>
        if name \<in> set (held_elsewhere w) then Some (Inr (), dw, r, w)
        else body (dw, r, w\<lparr>lock_log := lock_log w @ [name]\<rparr>))"

text \<open>
  \<^verbatim>\<open>this.emit('error', err)\<close>: with no listener registered for \<^verbatim>\<open>'error'\<close>, the
  emitter throws the error itself; otherwise the listeners are called in turn, and what
  one of them throws leaves \<^verbatim>\<open>emit\<close>. The first component is what \<^verbatim>\<open>emit\<close>
  throws, if anything.
\<close>

definition emit :: "error \<Rightarrow> runner_obj \<Rightarrow> error option \<times> runner_obj" where
  "emit err r =
     (if listeners r = [] then (Some err, r)
      else
        (case find (\<lambda>l. l \<noteq> Returns) (listeners r) of
           Some (Throws e) \<Rightarrow> (Some e, r\<lparr>events := events r @ [err]\<rparr>)
         | _ \<Rightarrow> (None, r\<lparr>events := events r @ [err]\<rparr>)))"

text \<open>
  The function passed to \<^verbatim>\<open>tryWithLock\<close>. What the batch runner throws is caught and
  emitted; what \<^verbatim>\<open>emit\<close> throws leaves the function.
\<close>

definition locked_work ::
  "'db runner_fn \<Rightarrow> int \<Rightarrow> BatchedMigrationRow \<Rightarrow> MigrationFile
     \<Rightarrow> bool \<times> runner_obj \<times> 'db world \<Rightarrow> ((error + unit) \<times> bool \<times> runner_obj \<times> 'db world) option" where
  "locked_work run durationMs migration mf s =
     (case s of (dw, r, w) \<Rightarrow>
        (case loadMigrationClass mf w of
           Inl e \<Rightarrow> Some (Inl e, True, r, w)
         | Inr impl \<Rightarrow>
             (case run \<lparr>run_signal = Some (aborted r), run_durationMs = Some durationMs\<rparr>
                     migration impl w of
                None \<Rightarrow> None
              | Some (Inl e, w') \<Rightarrow>
                  (case emit e r of
                     (Some thrown, r') \<Rightarrow> Some (Inl thrown, True, r', w')
                   | (None, r') \<Rightarrow> Some (Inr (), True, r', w'))
              | Some (Inr u, w') \<Rightarrow> Some (Inr (), True, r, w'))))"

definition maybePerformWork ::
  "'db runner_fn \<Rightarrow> int \<Rightarrow> runner_obj \<Rightarrow> 'db world
     \<Rightarrow> ((error + bool) \<times> runner_obj \<times> 'db world) option" where
  "maybePerformWork run durationMs r w =
     (case getOrStartMigration r w of
        (None, w1) \<Rightarrow> Some (Inr False, r, w1)
      | (Some migration, w1) \<Rightarrow>
          (case getMigrationForIdentifier (timestamp migration) r w1 of
             (Inl e, r1) \<Rightarrow> Some (Inl e, r1, w1)
           | (Inr None, r1) \<Rightarrow> Some (Inr False, r1, w1)
           | (Inr (Some mf), r1) \<Rightarrow>
               (case tryWithLock (lockNameForTimestamp r1 (mf_timestamp mf))
                       (locked_work run durationMs migration mf) (False, r1, w1) of
                  None \<Rightarrow> None
                | Some (Inl e, dw, r2, w2) \<Rightarrow> Some (Inl e, r2, w2)
                | Some (Inr u, dw, r2, w2) \<Rightarrow> Some (Inr dw, r2, w2))))"

text \<open>
  The body of the \<^verbatim>\<open>while (true)\<close> of \<^verbatim>\<open>loop\<close> in parts: the check of the
  signal at its top (\<open>loop_check\<close>); the \<^verbatim>\<open>try\<close> around the call of
  \<^verbatim>\<open>maybePerformWork\<close> with the \<^verbatim>\<open>'error'\<close> event for what it throws
  (\<open>loop_try\<close>: the result is \<^verbatim>\<open>didWork\<close>, or what \<^verbatim>\<open>emit\<close> threw in the
  \<^verbatim>\<open>catch\<close>, with which \<^verbatim>\<open>loop\<close> rejects); and the sleep when no work was done
  (\<open>loop_sleep\<close>). The sleep lets the clock advance by 30 seconds, or ends at once
  when the signal is aborted; either way the next pass follows.
\<close>

datatype loop_result = LoopExited | LoopContinues | LoopRejected error

definition idle_sleep :: "'db world \<Rightarrow> 'db world" where
  "idle_sleep w = w\<lparr>clock := clock w + 30000\<rparr>"

definition loop_sleep :: "runner_obj \<Rightarrow> 'db world \<Rightarrow> 'db world" where
  "loop_sleep r w = (if aborted r then w else idle_sleep w)"

definition loop_check :: "runner_obj \<Rightarrow> loop_result \<times> runner_obj" where
  "loop_check r =
     (if aborted r then (LoopExited, r\<lparr>running := False\<rparr>) else (LoopContinues, r))"

definition loop_try ::
  "'db runner_fn \<Rightarrow> runner_obj \<Rightarrow> 'db world \<Rightarrow> ((error + bool) \<times> runner_obj \<times> 'db world) option" where
  "loop_try run r w =
     (case maybePerformWork run (60 * 1000) r w of
        None \<Rightarrow> None
      | Some (Inl err, r1, w1) \<Rightarrow>
          (case emit err r1 of
             (Some thrown, r2) \<Rightarrow> Some (Inl thrown, r2, w1)
           | (None, r2) \<Rightarrow> Some (Inr False, r2, w1))
      | Some (Inr didWork, r1, w1) \<Rightarrow> Some (Inr didWork, r1, w1))"

definition loop_round ::
  "'db runner_fn \<Rightarrow> runner_obj \<Rightarrow> 'db world \<Rightarrow> ((error + unit) \<times> runner_obj \<times> 'db world) option" where
  "loop_round run r w =
     (case loop_try run r w of
        None \<Rightarrow> None
      | Some (Inl thrown, r1, w1) \<Rightarrow> Some (Inl thrown, r1, w1)
      | Some (Inr didWork, r1, w1) \<Rightarrow> Some (Inr (), r1, if didWork then w1 else loop_sleep r1 w1))"

text \<open>
  One pass from the check to the end of the sleep, and the loop for at most \<open>n\<close>
  passes; \<open>None\<close> when a pass does not return.
\<close>

definition loop_iteration ::
  "'db runner_fn \<Rightarrow> runner_obj \<Rightarrow> 'db world \<Rightarrow> (loop_result \<times> runner_obj \<times> 'db world) option" where
  "loop_iteration run r w =
     (if fst (loop_check r) = LoopExited then Some (LoopExited, snd (loop_check r), w)
      else
        (case loop_round run (snd (loop_check r)) w of
           None \<Rightarrow> None
         | Some (Inl thrown, r', w') \<Rightarrow> Some (LoopRejected thrown, r', w')
         | Some (Inr u, r', w') \<Rightarrow> Some (LoopContinues, r', w')))"

fun loop_passes ::
  "nat \<Rightarrow> 'db runner_fn \<Rightarrow> runner_obj \<Rightarrow> 'db world \<Rightarrow> (loop_result \<times> runner_obj \<times> 'db world) option" where
  "loop_passes 0 run r w = Some (LoopContinues, r, w)"
| "loop_passes (Suc n) run r w =
     (case loop_iteration run r w of
        None \<Rightarrow> None
      | Some (res, r', w') \<Rightarrow>
          if res = LoopContinues then loop_passes n run r' w' else Some (res, r', w'))"

text \<open>
  \<^verbatim>\<open>start\<close> throws when the flag is set; otherwise it calls \<^verbatim>\<open>loop\<close> without
  awaiting it, and \<^verbatim>\<open>loop\<close> runs up to its first await: it sets the flag and makes
  its first check of the signal. The rounds of the loop then go on in the background.
\<close>

definition start :: "runner_obj \<Rightarrow> error + runner_obj" where
  "start r =
     (if running r then Inl AlreadyRunning
      else Inr (snd (loop_check (r\<lparr>running := True\<rparr>))))"

section \<open>The loop as a task of the process, and stop\<close>

text \<open>
  \<^verbatim>\<open>loop\<close> is called without being awaited, so it goes on as a task of its own,
  which runs without interruption from one \<^verbatim>\<open>await\<close> to the next. \<open>p_loop\<close> is
  where the task is: there is none yet, it awaits \<^verbatim>\<open>maybePerformWork\<close> inside a
  round, it awaits its sleep, it has returned, or it has rejected with an error.
\<close>

datatype loop_pc = NoLoop | InRound | Sleeping | Exited | Dead error

record 'db proc =
  p_runner :: runner_obj
  p_world :: "'db world"
  p_loop :: loop_pc

text \<open>
  A call of \<^verbatim>\<open>start\<close>: when it does not throw, the loop has made its first check
  and is inside its first round, or has returned.
\<close>

definition proc_start :: "'db proc \<Rightarrow> (error + unit) \<times> 'db proc" where
  "proc_start p =
     (case start (p_runner p) of
        Inl e \<Rightarrow> (Inl e, p)
      | Inr r' \<Rightarrow> (Inr (), p\<lparr>p_runner := r', p_loop := (if running r' then InRound else Exited)\<rparr>))"

text \<open>
  The resumptions of the loop. \<open>after_check\<close>: the loop is at the top of the
  \<^verbatim>\<open>while\<close> and returns or enters a round. \<open>round_ends\<close>: the call of
  \<^verbatim>\<open>maybePerformWork\<close> is over; the loop rejects with what \<^verbatim>\<open>emit\<close> threw, goes
  to the check after work, or into its sleep. A round is one step, taken when it ends: the
  signal is handed to the batch runner as it is then, and the batch runner is any
  function, so that it may have run batches before the signal was aborted.
  \<open>sleep_ends\<close>: the sleep ends, at once when the signal is aborted and by its timer
  otherwise, and the check follows. \<open>loop_resumes\<close>: the next resumption of the loop,
  if it is suspended at all; a loop that has returned or rejected is never resumed.
\<close>

definition after_check :: "'db proc \<Rightarrow> 'db proc" where
  "after_check p =
     p\<lparr>p_runner := snd (loop_check (p_runner p)),
       p_loop := (if fst (loop_check (p_runner p)) = LoopExited then Exited else InRound)\<rparr>"

definition round_ends :: "'db runner_fn \<Rightarrow> 'db proc \<Rightarrow> 'db proc option" where
  "round_ends run p =
     (case loop_try run (p_runner p) (p_world p) of
        None \<Rightarrow> None
      | Some (Inl thrown, r1, w1) \<Rightarrow>
          Some (p\<lparr>p_runner := r1, p_world := w1, p_loop := Dead thrown\<rparr>)
      | Some (Inr didWork, r1, w1) \<Rightarrow>
          Some (if didWork then after_check (p\<lparr>p_runner := r1, p_world := w1\<rparr>)
                else p\<lparr>p_runner := r1, p_world := w1, p_loop := Sleeping\<rparr>))"

definition sleep_ends :: "'db proc \<Rightarrow> 'db proc" where
  "sleep_ends p =
     after_check (p\<lparr>p_world := loop_sleep (p_runner p) (p_world p)\<rparr>)"

definition loop_resumes :: "'db runner_fn \<Rightarrow> 'db proc \<Rightarrow> 'db proc option" where
  "loop_resumes run p =
     (case p_loop p of
        InRound \<Rightarrow> round_ends run p
      | Sleeping \<Rightarrow> Some (sleep_ends p)
      | _ \<Rightarrow> Some p)"

text \<open>
  \<^verbatim>\<open>stop\<close> aborts the signal and spins while the flag is set. Here the loop is
  resumed once during each sleep of one second of \<^verbatim>\<open>stop\<close>; the resumptions and the
  polls in any order are the subject of the section after the next. The first argument
  bounds the number of polls; \<open>None\<close> is a call that has not returned within that
  bound, among them every call made when \<^verbatim>\<open>loop\<close> has rejected with the flag set.
\<close>

definition abort :: "'db proc \<Rightarrow> 'db proc" where
  "abort p = p\<lparr>p_runner := (p_runner p)\<lparr>aborted := True\<rparr>\<rparr>"

definition poll_sleep :: "'db proc \<Rightarrow> 'db proc" where
  "poll_sleep p = p\<lparr>p_world := (p_world p)\<lparr>clock := clock (p_world p) + 1000\<rparr>\<rparr>"

fun spin :: "nat \<Rightarrow> 'db runner_fn \<Rightarrow> 'db proc \<Rightarrow> 'db proc option" where
  "spin 0 run p = (if running (p_runner p) then None else Some p)"
| "spin (Suc n) run p =
     (if running (p_runner p) then
        (case loop_resumes run p of
           None \<Rightarrow> None
         | Some p' \<Rightarrow> spin n run (poll_sleep p'))
      else Some p)"

definition stop :: "nat \<Rightarrow> 'db runner_fn \<Rightarrow> 'db proc \<Rightarrow> 'db proc option" where
  "stop fuel run p = spin fuel run (abort p)"

section \<open>The module-level control surface\<close>

text \<open>
  The module variable \<^verbatim>\<open>runner\<close> is \<open>None\<close> (\<^verbatim>\<open>null\<close>) or holds the runner
  object. Each function takes its value and returns the new one.
  \<^verbatim>\<open>stopBatchedMigrations\<close> is given where the loop of the runner is suspended.
\<close>

definition new_runner :: "BatchedMigrationRunnerOptions \<Rightarrow> runner_obj" where
  "new_runner opts =
     \<lparr>options = opts, running = False, migrationFiles = None, aborted = False,
      listeners = [], events = []\<rparr>"

definition assertRunner :: "runner_obj option \<Rightarrow> error + runner_obj" where
  "assertRunner g = (case g of None \<Rightarrow> Inl NotInitialized | Some r \<Rightarrow> Inr r)"

definition initBatchedMigrations ::
  "BatchedMigrationRunnerOptions \<Rightarrow> runner_obj option \<Rightarrow> (error + runner_obj) \<times> runner_obj option" where
  "initBatchedMigrations opts g =
     (case g of
        Some r \<Rightarrow> (Inl AlreadyInitialized, g)
      | None \<Rightarrow> (Inr (new_runner opts), Some (new_runner opts)))"

definition startBatchedMigrations ::
  "runner_obj option \<Rightarrow> (error + runner_obj) \<times> runner_obj option" where
  "startBatchedMigrations g =
     (case assertRunner g of
        Inl e \<Rightarrow> (Inl e, g)
      | Inr r \<Rightarrow>
          (case start r of
             Inl e \<Rightarrow> (Inl e, g)
           | Inr r' \<Rightarrow> (Inr r', Some r')))"

definition module_enqueueBatchedMigration ::
  "string \<Rightarrow> runner_obj option \<Rightarrow> 'db world \<Rightarrow> (error + unit) \<times> runner_obj option \<times> 'db world" where
  "module_enqueueBatchedMigration identifier g w =
     (case assertRunner g of
        Inl e \<Rightarrow> (Inl e, g, w)
      | Inr r \<Rightarrow>
          (case enqueueBatchedMigration identifier r w of
             (res, r', w') \<Rightarrow> (res, Some r', w')))"

definition module_finalizeBatchedMigration ::
  "'db runner_fn \<Rightarrow> string \<Rightarrow> runner_obj option \<Rightarrow> 'db world
     \<Rightarrow> ((error + unit) \<times> runner_obj option \<times> 'db world) option" where
  "module_finalizeBatchedMigration run identifier g w =
     (case assertRunner g of
        Inl e \<Rightarrow> Some (Inl e, g, w)
      | Inr r \<Rightarrow>
          (case finalizeBatchedMigration run identifier r w of
             None \<Rightarrow> None
           | Some (res, r', w') \<Rightarrow> Some (res, Some r', w')))"

definition stopBatchedMigrations ::
  "nat \<Rightarrow> 'db runner_fn \<Rightarrow> runner_obj option \<Rightarrow> loop_pc \<Rightarrow> 'db world
     \<Rightarrow> ((error + unit) \<times> runner_obj option \<times> 'db world) option" where
  "stopBatchedMigrations fuel run g pc w =
     (case assertRunner g of
        Inl e \<Rightarrow> Some (Inl e, g, w)
      | Inr r \<Rightarrow>
          (case stop fuel run \<lparr>p_runner = r, p_world = w, p_loop = pc\<rparr> of
             None \<Rightarrow> None
           | Some p' \<Rightarrow> Some (Inr (), None, p_world p')))"

section \<open>Calls and resumptions in any order\<close>

text \<open>
  The process with its calls of \<^verbatim>\<open>start\<close> and \<^verbatim>\<open>stop\<close>, which may overlap:
  \<open>s_spinning\<close> counts the calls of \<^verbatim>\<open>stop\<close> that are in their spin,
  \<open>s_returned\<close> those that have returned. A step is a call of \<^verbatim>\<open>start\<close>, a call
  of \<^verbatim>\<open>stop\<close> up to its first test of the flag, a resumption of the loop, or the end
  of the sleep of a spinning \<^verbatim>\<open>stop\<close> with its next test of the flag. \<open>None\<close>: the
  step is not possible, or the round it resumes does not return.
\<close>

record 'db sched =
  s_proc :: "'db proc"
  s_spinning :: nat
  s_returned :: nat

datatype event = CallStart | CallStop | LoopResumes | StopPolls

definition stop_tests :: "'db proc \<Rightarrow> nat \<Rightarrow> nat \<Rightarrow> 'db sched" where
  "stop_tests p spinning returned =
     (if running (p_runner p)
      then \<lparr>s_proc = p, s_spinning = Suc spinning, s_returned = returned\<rparr>
      else \<lparr>s_proc = p, s_spinning = spinning, s_returned = Suc returned\<rparr>)"

fun sched_step :: "'db runner_fn \<Rightarrow> event \<Rightarrow> 'db sched \<Rightarrow> 'db sched option" where
  "sched_step run CallStart s = Some (s\<lparr>s_proc := snd (proc_start (s_proc s))\<rparr>)"
| "sched_step run LoopResumes s =
     (case loop_resumes run (s_proc s) of
        None \<Rightarrow> None
      | Some p \<Rightarrow> Some (s\<lparr>s_proc := p\<rparr>))"
| "sched_step run CallStop s =
     Some (stop_tests (abort (s_proc s)) (s_spinning s) (s_returned s))"
| "sched_step run StopPolls s =
     (if s_spinning s = 0 then None
      else Some (stop_tests (poll_sleep (s_proc s)) (s_spinning s - 1) (s_returned s)))"

fun run_events :: "'db runner_fn \<Rightarrow> event list \<Rightarrow> 'db sched \<Rightarrow> 'db sched option" where
  "run_events run [] s = Some s"
| "run_events run (e # es) s =
     (case sched_step run e s of None \<Rightarrow> None | Some s' \<Rightarrow> run_events run es s')"

text \<open>
  The process before any call, with a runner whose loop was never started; what holds in
  every state the process can reach; the states in which a call of \<^verbatim>\<open>stop\<close> has
  returned; and the work the process has done.
\<close>

definition init_sched :: "runner_obj \<Rightarrow> 'db world \<Rightarrow> 'db sched" where
  "init_sched r w =
     \<lparr>s_proc = \<lparr>p_runner = r, p_world = w, p_loop = NoLoop\<rparr>, s_spinning = 0, s_returned = 0\<rparr>"

definition suspended :: "loop_pc \<Rightarrow> bool" where
  "suspended pc \<longleftrightarrow> pc = InRound \<or> pc = Sleeping"

definition dead :: "loop_pc \<Rightarrow> bool" where
  "dead pc \<longleftrightarrow> (case pc of Dead e \<Rightarrow> True | _ \<Rightarrow> False)"

definition proc_inv :: "'db proc \<Rightarrow> bool" where
  "proc_inv p \<longleftrightarrow> (running (p_runner p) \<longleftrightarrow> suspended (p_loop p) \<or> dead (p_loop p))"

definition sched_inv :: "'db sched \<Rightarrow> bool" where
  "sched_inv s \<longleftrightarrow>
     proc_inv (s_proc s)
     \<and> (0 < s_spinning s + s_returned s \<longrightarrow> aborted (p_runner (s_proc s)))
     \<and> (0 < s_returned s \<longrightarrow> \<not> running (p_runner (s_proc s)))"

definition stopped :: "'db proc \<Rightarrow> bool" where
  "stopped p \<longleftrightarrow>
     aborted (p_runner p) \<and> \<not> running (p_runner p) \<and> (p_loop p = NoLoop \<or> p_loop p = Exited)"

definition work_done :: "'db proc \<Rightarrow> (nat \<times> int \<times> int) list \<times> string list \<times> BatchedMigrationRow list" where
  "work_done p = (batch_log (p_world p), lock_log (p_world p), rows (p_world p))"

section \<open>Repeated runs and what a partition of the range is\<close>

text \<open>
  Invoking the batch runner again and again on one record, each time with its own
  options, whatever the run before returned or threw, as the rounds of the scheduling loop
  do. The results of the runs are collected.
\<close>

fun run_repeatedly ::
  "nat \<Rightarrow> RunOptions list \<Rightarrow> BatchedMigrationRow \<Rightarrow> 'db BatchedMigration \<Rightarrow> 'db world
     \<Rightarrow> ((error + unit) list \<times> 'db world) option" where
  "run_repeatedly fuel [] m impl w = Some ([], w)"
| "run_repeatedly fuel (opts # rest) m impl w =
     (case BatchedMigrationRunner_run fuel opts m impl w of
        None \<Rightarrow> None
      | Some (res, w') \<Rightarrow>
          (case run_repeatedly fuel rest m impl w' of
             None \<Rightarrow> None
           | Some (ress, w'') \<Rightarrow> Some (res # ress, w'')))"

text \<open>
  \<open>batch_chain bs hi c L c'\<close>: starting with the cursor at \<open>c\<close>, the list \<open>L\<close> is the
  sequence of subranges \<open>[cursor+1, min(cursor+bs, hi)]\<close>, each starting from the end of
  the one before, and the cursor ends at \<open>c'\<close>. \<open>partitions L lo hi bs\<close>: the
  subranges of \<open>L\<close> are non-empty, of size at most \<open>bs\<close>, contiguous, and go from
  \<open>lo\<close> to \<open>hi\<close>. \<open>covers u x\<close>: the unit \<open>u\<close> lies in the subrange \<open>x\<close>.
\<close>

fun batch_chain :: "int \<Rightarrow> int \<Rightarrow> int \<Rightarrow> (int \<times> int) list \<Rightarrow> int \<Rightarrow> bool" where
  "batch_chain bs hi c [] c' \<longleftrightarrow> c' = c"
| "batch_chain bs hi c (x # L) c' \<longleftrightarrow>
     c < hi \<and> x = (c + 1, min (c + bs) hi) \<and> batch_chain bs hi (snd x) L c'"

fun partitions :: "(int \<times> int) list \<Rightarrow> int \<Rightarrow> int \<Rightarrow> int \<Rightarrow> bool" where
  "partitions [] lo hi bs \<longleftrightarrow> lo = hi + 1"
| "partitions (x # L) lo hi bs \<longleftrightarrow>
     fst x = lo \<and> fst x \<le> snd x \<and> snd x \<le> hi \<and> snd x - fst x + 1 \<le> bs
       \<and> partitions L (snd x + 1) hi bs"

definition covers :: "int \<Rightarrow> int \<times> int \<Rightarrow> bool" where
  "covers u x \<longleftrightarrow> fst x \<le> u \<and> u \<le> snd x"

section \<open>Well-formed tables and what stays fixed in them\<close>

text \<open>
  The table is well formed when the id of every row is its position, as the insert
  assigns it.
\<close>

definition store_ok :: "'db world \<Rightarrow> bool" where
  "store_ok w \<longleftrightarrow> map row_id (rows w) = [0 ..< length (rows w)]"

text \<open>The batch size and the bounds of every row, in the order of the table.\<close>

definition bounds_of :: "'db world \<Rightarrow> (int \<times> int \<times> int) list" where
  "bounds_of w = map (\<lambda>m. (batch_size m, min_value m, max_value m)) (rows w)"

text \<open>The project, timestamp and id of every row, in the order of the table.\<close>

definition keys_of :: "'db world \<Rightarrow> (string \<times> string \<times> nat) list" where
  "keys_of w = map (\<lambda>m. (project m, timestamp m, row_id m)) (rows w)"

text \<open>
  The row and the world after the first step of finalization: the status forced to
  \<open>finalizing\<close> by a status update, unless the row is already there.
\<close>

definition forced :: "BatchedMigrationRow \<Rightarrow> 'db world \<Rightarrow> BatchedMigrationRow \<times> 'db world" where
  "forced m w =
     (if status m = Finalizing then (m, w)
      else (m\<lparr>status := Finalizing, updated_at := clock w\<rparr>,
            tick (put_row (row_id m) (m\<lparr>status := Finalizing, updated_at := clock w\<rparr>) w)))"

section \<open>A concrete installation\<close>

text \<open>
  One project with one migration file, \<^verbatim>\<open>20230406184103_backfill\<close>, over the range
  1 to 2500 in batches of 1000; the user table is a counter of the units processed.
\<close>

definition demo_options :: BatchedMigrationRunnerOptions where
  "demo_options = \<lparr>opt_project = ''pl'', opt_directories = [''batched-migrations''],
                    opt_runDurationMs = None\<rparr>"

definition demo_file :: MigrationFile where
  "demo_file = \<lparr>mf_directory = ''batched-migrations'',
                 mf_filename = ''20230406184103_backfill.ts'',
                 mf_timestamp = ''20230406184103''\<rparr>"

definition demo_migration :: "int BatchedMigration" where
  "demo_migration =
     \<lparr>getParameters = (\<lambda>d. Inr \<lparr>param_min = Val 1, param_max = Val 2500,
                                   param_batchSize = Val 1000\<rparr>),
      runBatch = (\<lambda>a b d. (None, d + (b - a + 1)))\<rparr>"

definition demo_row :: BatchedMigrationRow where
  "demo_row = \<lparr>project = ''pl'', filename = ''20230406184103_backfill.ts'',
                timestamp = ''20230406184103'', batch_size = 1000, min_value = 1,
                max_value = 2500, status = Pending, row_id = 0, cursor = 0, updated_at = 0\<rparr>"

definition demo_world :: "BatchedMigrationRow list \<Rightarrow> int world" where
  "demo_world rs = \<lparr>rows = rs, clock = 1, held_elsewhere = [], db = 0, batch_log = [],
                     lock_log = [], disk = (\<lambda>dirs exts. Inr [demo_file]),
                     modules = (\<lambda>f. MigrationClass demo_migration), batch_ms = 1,
                     status_default = Pending\<rparr>"

definition demo_runs :: "RunOptions list" where
  "demo_runs = [\<lparr>run_signal = Some False, run_durationMs = Some 2\<rparr>,
                \<lparr>run_signal = Some True, run_durationMs = Some 60000\<rparr>,
                \<lparr>run_signal = None, run_durationMs = None\<rparr>]"

definition demo_runner :: runner_obj where
  "demo_runner = new_runner demo_options"

text \<open>
  The installation with an empty table and another migration behind the file: one that
  reports no parameters at all, one that reports \<open>max = null\<close>, one whose minimum exceeds
  its maximum, and one whose batches throw.
\<close>

definition world_of :: "int BatchedMigration \<Rightarrow> int world" where
  "world_of impl = (demo_world [])\<lparr>modules := (\<lambda>f. MigrationClass impl)\<rparr>"

definition absent_migration :: "int BatchedMigration" where
  "absent_migration =
     \<lparr>getParameters = (\<lambda>d. Inr \<lparr>param_min = Undefined, param_max = Undefined,
                                   param_batchSize = Undefined\<rparr>),
      runBatch = (\<lambda>a b d. (None, d + (b - a + 1)))\<rparr>"


definition inverted_migration :: "int BatchedMigration" where
  "inverted_migration =
     \<lparr>getParameters = (\<lambda>d. Inr \<lparr>param_min = Val 10, param_max = Val 5,
                                   param_batchSize = Undefined\<rparr>),
      runBatch = (\<lambda>a b d. (None, d + (b - a + 1)))\<rparr>"

definition failing_migration :: "int BatchedMigration" where
  "failing_migration =
     \<lparr>getParameters = (\<lambda>d. Inr \<lparr>param_min = Val 1, param_max = Val 2500,
                                   param_batchSize = Val 1000\<rparr>),
      runBatch = (\<lambda>a b d. (Some (External ''batch failed''), d))\<rparr>"

text \<open>
  The migration claimed and stopped at cursor 2000; a process that does not know the
  migration file; the lock of the migration held by another process; a migration module
  that exports no migration class; the failing migration enqueued.
\<close>

definition stuck_row :: BatchedMigrationRow where
  "stuck_row = demo_row\<lparr>status := Running, cursor := 2000\<rparr>"

definition unknown_world :: "int world" where
  "unknown_world = (demo_world [stuck_row])\<lparr>disk := (\<lambda>dirs exts. Inr [])\<rparr>"

definition locked_world :: "int world" where
  "locked_world =
     (demo_world [stuck_row])\<lparr>held_elsewhere := [''batched-migrations:pl:20230406184103'']\<rparr>"

definition broken_world :: "int world" where
  "broken_world = (demo_world [demo_row])\<lparr>modules := (\<lambda>f. NotAMigration)\<rparr>"

definition failing_world :: "int world" where
  "failing_world = (demo_world [demo_row])\<lparr>modules := (\<lambda>f. MigrationClass failing_migration)\<rparr>"

text \<open>
  What is observed of a row, after a call (its result, the statuses, the batches invoked
  and the locks acquired) and after passes of the loop (the running flag and the events).
\<close>

definition row_summary :: "BatchedMigrationRow \<Rightarrow> int \<times> int \<times> BatchedMigrationStatus" where
  "row_summary m = (min_value m, max_value m, status m)"

definition outcome ::
  "((error + 'a) \<times> runner_obj \<times> 'db world) option
     \<Rightarrow> ((error + 'a) \<times> BatchedMigrationStatus list \<times> (nat \<times> int \<times> int) list \<times> string list) option" where
  "outcome x =
     map_option (\<lambda>(res, r, w). (res, map status (rows w), batch_log w, lock_log w)) x"

definition pass_summary ::
  "(loop_result \<times> runner_obj \<times> 'db world) option \<Rightarrow> (loop_result \<times> bool \<times> error list) option" where
  "pass_summary x = map_option (\<lambda>(res, r, w). (res, running r, events r)) x"

text \<open>
  A runner on which listeners for \<^verbatim>\<open>'error'\<close> are registered, none of which throws;
  the runner of the installation with such a listener; and the runner of the installation
  after \<^verbatim>\<open>start\<close>, with no listener.
\<close>

definition listening :: "runner_obj \<Rightarrow> bool" where
  "listening r \<longleftrightarrow> listeners r \<noteq> [] \<and> list_all (\<lambda>l. l = Returns) (listeners r)"

definition listening_runner :: runner_obj where
  "listening_runner = demo_runner\<lparr>listeners := [Returns]\<rparr>"

definition started_runner :: runner_obj where
  "started_runner = demo_runner\<lparr>running := True\<rparr>"

text \<open>
  The invocations of the batch function on one record, in order, that take its cursor
  from \<open>c\<close> to \<open>c'\<close> with \<open>k\<close> of them failing: each invocation is on the next
  subrange at the current cursor, and it succeeds, which advances the cursor to the end of
  the subrange, or fails, which leaves the cursor where it is.
\<close>

fun attempt_chain :: "int \<Rightarrow> int \<Rightarrow> int \<Rightarrow> (int \<times> int) list \<Rightarrow> int \<Rightarrow> nat \<Rightarrow> bool" where
  "attempt_chain bs hi c [] c' k \<longleftrightarrow> c' = c \<and> k = 0"
| "attempt_chain bs hi c (x # A) c' k \<longleftrightarrow>
     c < hi \<and> x = (c + 1, min (c + bs) hi)
     \<and> (attempt_chain bs hi (snd x) A c' k \<or> (0 < k \<and> attempt_chain bs hi c A c' (k - 1)))"

text \<open>
  A migration whose first batch invocation throws and whose later ones succeed (the user
  table counts the invocations); runs without signal or time limit; and what is observed
  of repeated runs: their results, the statuses, the batches invoked, and how many of the
  invocations cover a unit.
\<close>

definition flaky_migration :: "int BatchedMigration" where
  "flaky_migration =
     \<lparr>getParameters = (\<lambda>d. Inr \<lparr>param_min = Val 1, param_max = Val 2500,
                                   param_batchSize = Val 1000\<rparr>),
      runBatch = (\<lambda>a b d. (if d = 0 then Some (External ''batch failed'') else None, d + 1))\<rparr>"

definition no_limits :: RunOptions where
  "no_limits = \<lparr>run_signal = None, run_durationMs = None\<rparr>"

definition run_summary ::
  "((error + unit) list \<times> 'db world) option
     \<Rightarrow> ((error + unit) list \<times> BatchedMigrationStatus list \<times> (nat \<times> int \<times> int) list) option" where
  "run_summary x = map_option (\<lambda>(ress, w). (ress, map status (rows w), batch_log w)) x"

definition coverage :: "int \<Rightarrow> ((error + unit) list \<times> 'db world) option \<Rightarrow> nat option" where
  "coverage u x =
     map_option (\<lambda>(ress, w). length (filter (covers u) (map snd (batch_log w)))) x"

section \<open>Facts about the store and the batch runner\<close>

lemma row_at_put_row [simp]:
  "i < length (rows w) \<Longrightarrow> row_at (put_row i m w) i = Some m"
  by (simp add: row_at_def put_row_def)

lemma row_at_tick [simp]: "row_at (tick w) i = row_at w i"
  by (simp add: row_at_def tick_def)

lemma row_at_Some_length: "row_at w i = Some m \<Longrightarrow> i < length (rows w)"
  by (simp add: row_at_def split: if_splits)

lemma batch_log_put_row [simp]: "batch_log (put_row i m w) = batch_log w"
  by (simp add: put_row_def)

lemma batch_log_tick [simp]: "batch_log (tick w) = batch_log w"
  by (simp add: tick_def)

lemma length_rows_put_row [simp]: "length (rows (put_row i m w)) = length (rows w)"
  by (simp add: put_row_def)

lemma batch_chain_partitions:
  "batch_chain bs hi c L hi \<Longrightarrow> 1 \<le> bs \<Longrightarrow> c \<le> hi \<Longrightarrow> partitions L (c + 1) hi bs"
proof (induction L arbitrary: c)
  case Nil
  then show ?case by simp
next
  case (Cons x L)
  then have x: "x = (c + 1, min (c + bs) hi)" and lt: "c < hi"
    and rest: "batch_chain bs hi (min (c + bs) hi) L hi" by auto
  have "partitions L (min (c + bs) hi + 1) hi bs"
    by (rule Cons.IH[OF rest Cons.prems(2)]) simp
  with x lt Cons.prems(2) show ?case by auto
qed

lemma partitions_covers_once:
  "partitions L lo hi bs \<Longrightarrow> lo \<le> u \<Longrightarrow> u \<le> hi \<Longrightarrow> length (filter (covers u) L) = 1"
  and partitions_covers_below:
  "partitions L lo hi bs \<Longrightarrow> u < lo \<Longrightarrow> filter (covers u) L = []"
proof (induction L arbitrary: lo)
  case Nil
  { case 1 then show ?case by simp }
  { case 2 then show ?case by simp }
next
  case (Cons x L)
  { case 1
    then have p: "partitions L (snd x + 1) hi bs" and fx: "fst x = lo" by auto
    show ?case
    proof (cases "u \<le> snd x")
      case True
      then have "filter (covers u) L = []" using Cons.IH(2)[OF p] by simp
      moreover have "covers u x" using True 1 fx by (simp add: covers_def)
      ultimately show ?thesis by simp
    next
      case False
      then have "length (filter (covers u) L) = 1" using Cons.IH(1)[OF p] 1 by simp
      moreover have "\<not> covers u x" using False by (simp add: covers_def)
      ultimately show ?thesis by simp
    qed }
  { case 2
    then have p: "partitions L (snd x + 1) hi bs" and fx: "fst x = lo" "fst x \<le> snd x" by auto
    have "filter (covers u) L = []" using Cons.IH(2)[OF p] 2 fx by simp
    moreover have "\<not> covers u x" using 2 fx by (simp add: covers_def)
    ultimately show ?case by simp }
qed

lemma partitions_covers_above:
  "partitions L lo hi bs \<Longrightarrow> hi < u \<Longrightarrow> filter (covers u) L = []"
proof (induction L arbitrary: lo)
  case Nil
  then show ?case by simp
next
  case (Cons x L)
  then have "filter (covers u) L = []" by auto
  moreover have "\<not> covers u x" using Cons.prems by (simp add: covers_def)
  ultimately show ?case by simp
qed

lemma run_batches_completes:
  assumes ok: "\<And>a b d. fst (runBatch impl a b d) = None"
  shows "row_at w i = Some m \<Longrightarrow> 1 \<le> batch_size m \<Longrightarrow>
         \<exists>n w' m'. run_batches n False None i impl w = Some (Inr (), w')
            \<and> row_at w' i = Some m' \<and> status m' = Succeeded"
proof (induction "nat (max_value m - cursor m)" arbitrary: w m rule: less_induct)
  case less
  have len: "i < length (rows w)" using less.prems(1) by (rule row_at_Some_length)
  note bs = less.prems(2)
  show ?case
  proof (cases "max_value m \<le> cursor m")
    case True
    with less.prems len show ?thesis
      by (intro exI[of _ "Suc 0"]) (simp add: updateBatchedMigrationStatus_def Let_def)
  next
    case False
    obtain d' where rb: "runBatch impl (fst (next_batch m)) (snd (next_batch m)) (db w) = (None, d')"
      using ok[of "fst (next_batch m)" "snd (next_batch m)" "db w"]
      by (cases "runBatch impl (fst (next_batch m)) (snd (next_batch m)) (db w)") simp
    let ?m1 = "m\<lparr>cursor := snd (next_batch m)\<rparr>"
    let ?w1 = "put_row i ?m1 (w\<lparr>db := d', batch_log := batch_log w @ [(i, next_batch m)],
                       clock := clock w + batch_ms w\<rparr>)"
    have r1: "row_at ?w1 i = Some ?m1" using len by simp
    have dec: "nat (max_value ?m1 - cursor ?m1) < nat (max_value m - cursor m)"
      using False bs by (simp add: next_batch_def)
    have bs1: "1 \<le> batch_size ?m1" using bs by simp
    from less.hyps[OF dec r1 bs1] obtain n w' m' where
      "run_batches n False None i impl ?w1 = Some (Inr (), w')"
      "row_at w' i = Some m'" "status m' = Succeeded" by blast
    with less.prems False rb show ?thesis
      by (intro exI[of _ "Suc n"] exI[of _ w'] exI[of _ m']) (simp add: past_deadline_def)
  qed
qed

lemma enqueue_Inr:
  assumes "enqueueBatchedMigration identifier r w = (Inr u, r', w')"
  shows "\<exists>mf impl ps. getMigrationForIdentifier identifier r w = (Inr (Some mf), r')
           \<and> loadMigrationClass mf w = Inr impl
           \<and> getParameters impl (db w) = Inr ps
           \<and> insertBatchedMigration (enqueue_record r' mf ps) w = Inr w'"
  using assms unfolding enqueueBatchedMigration_def
  by (auto split: prod.splits sum.splits option.splits)

lemma insert_Inr:
  assumes "insertBatchedMigration n w = Inr w'"
  shows "w' = tick (w\<lparr>rows := rows w @
                    [new_row (project n) (filename n) (timestamp n) (batch_size n)
                       (min_value n) (max_value n) w]\<rparr>)"
  using assms unfolding insertBatchedMigration_def by (auto split: if_splits)

lemma update_bounds:
  "bounds_of (snd (updateBatchedMigrationStatus i s w)) = bounds_of w"
  unfolding updateBatchedMigrationStatus_def row_at_def bounds_of_def put_row_def tick_def
  by (simp add: Let_def map_update list_update_same_conv)

lemma bounds_put_row:
  "row_at w i = Some m \<Longrightarrow> batch_size m' = batch_size m \<Longrightarrow> min_value m' = min_value m
     \<Longrightarrow> max_value m' = max_value m \<Longrightarrow> bounds_of (put_row i m' w) = bounds_of w"
  by (auto simp: row_at_def put_row_def bounds_of_def map_update list_update_same_conv
           split: if_splits)

lemma bounds_tick [simp]: "bounds_of (tick w) = bounds_of w"
  by (simp add: bounds_of_def tick_def)

lemma run_batches_bounds:
  "run_batches n c dl i impl w = Some (res, w') \<Longrightarrow> bounds_of w' = bounds_of w"
proof (induction n arbitrary: w)
  case 0
  then show ?case by simp
next
  case (Suc n)
  show ?case
  proof (cases "row_at w i")
    case None
    with Suc.prems show ?thesis by simp
  next
    case (Some m)
    let ?b = "next_batch m"
    obtain eo d' where rb: "runBatch impl (fst ?b) (snd ?b) (db w) = (eo, d')"
      by (cases "runBatch impl (fst ?b) (snd ?b) (db w)")
    let ?w0 = "w\<lparr>db := d', batch_log := batch_log w @ [(i, ?b)], clock := clock w + batch_ms w\<rparr>"
    have w0: "bounds_of ?w0 = bounds_of w" "row_at ?w0 i = Some m"
      using Some by (auto simp: bounds_of_def row_at_def split: if_splits)
    have put: "bounds_of (put_row i (m\<lparr>cursor := snd ?b\<rparr>) ?w0) = bounds_of w"
      using bounds_put_row[OF w0(2), of "m\<lparr>cursor := snd ?b\<rparr>"] w0(1) by simp
    consider (finished) "max_value m \<le> cursor m"
      | (halt) "\<not> max_value m \<le> cursor m" "c \<or> past_deadline dl w"
      | (fail) e where "\<not> max_value m \<le> cursor m" "\<not> (c \<or> past_deadline dl w)" "eo = Some e"
      | (go) "\<not> max_value m \<le> cursor m" "\<not> (c \<or> past_deadline dl w)" "eo = None"
      by (cases eo) auto
    then show ?thesis
    proof cases
      case finished
      with Suc.prems Some have "w' = snd (updateBatchedMigrationStatus i Succeeded w)"
        by (auto split: prod.splits sum.splits)
      then show ?thesis by (simp add: update_bounds)
    next
      case halt
      with Suc.prems Some show ?thesis by auto
    next
      case fail
      with Suc.prems Some rb have "w' = ?w0" by auto
      with w0(1) show ?thesis by simp
    next
      case go
      with Suc.prems Some rb
      have "run_batches n c dl i impl (put_row i (m\<lparr>cursor := snd ?b\<rparr>) ?w0) = Some (res, w')"
        by auto
      from Suc.IH[OF this] put show ?thesis by simp
    qed
  qed
qed

lemma store_ok_nth: "store_ok w \<Longrightarrow> i < length (rows w) \<Longrightarrow> row_id (rows w ! i) = i"
proof -
  assume ok: "store_ok w" and i: "i < length (rows w)"
  have "row_id (rows w ! i) = map row_id (rows w) ! i" using i by simp
  also have "\<dots> = [0 ..< length (rows w)] ! i" using ok by (simp add: store_ok_def)
  also have "\<dots> = i" using i by simp
  finally show ?thesis .
qed

lemma find_row_at:
  assumes "find P (rows w) = Some m" and "store_ok w"
  shows "row_at w (row_id m) = Some m"
proof -
  from assms(1) obtain i where i: "i < length (rows w)" "rows w ! i = m"
    by (auto simp: find_Some_iff)
  with store_ok_nth[OF assms(2) i(1)] show ?thesis by (simp add: row_at_def)
qed

lemma getOrStartMigration_bounds:
  assumes ok: "store_ok w"
  shows "bounds_of (snd (getOrStartMigration r w)) = bounds_of w"
proof (cases "find (\<lambda>m. project m = opt_project (options r)
                     \<and> (status m = Pending \<or> status m = Running)) (rows w)")
  case None
  then show ?thesis by (simp add: getOrStartMigration_def)
next
  case (Some m)
  show ?thesis
  proof (cases "status m = Pending")
    case False
    with Some show ?thesis by (simp add: getOrStartMigration_def)
  next
    case True
    have "row_at w (row_id m) = Some m" using find_row_at[OF Some ok] .
    from bounds_put_row[OF this, of "m\<lparr>status := Running, updated_at := clock w\<rparr>"]
    have "bounds_of (put_row (row_id m) (m\<lparr>status := Running, updated_at := clock w\<rparr>) w) = bounds_of w"
      by simp
    with Some True show ?thesis by (simp add: getOrStartMigration_def Let_def)
  qed
qed

lemma getMigrationForIdentifier_Some:
  "getMigrationForIdentifier identifier r w = (Inr (Some mf), r')
     \<Longrightarrow> mf_timestamp mf = timestamp_of identifier \<and> options r' = options r
         \<and> running r' = running r \<and> aborted r' = aborted r \<and> events r' = events r"
  unfolding getMigrationForIdentifier_def getMigrationFiles_def
  by (auto simp: Let_def find_Some_iff split: option.splits sum.splits)

lemma insert_rows:
  assumes "insertBatchedMigration n w = Inr w'"
  shows "\<exists>m. rows w' = rows w @ [m] \<and> batch_size m = batch_size n \<and> min_value m = min_value n
           \<and> max_value m = max_value n \<and> status m = status_default w \<and> project m = project n
           \<and> timestamp m = timestamp n \<and> filename m = filename n
           \<and> row_id m = length (rows w) \<and> cursor m = min_value n - 1"
  using insert_Inr[OF assms] by (simp add: tick_def new_row_def)

lemma enqueue_record_sel:
  "batch_size (enqueue_record r mf ps) = nullish (param_batchSize ps) 1000"
  "min_value (enqueue_record r mf ps) = nullish (param_min ps) 1"
  "max_value (enqueue_record r mf ps) = nullish (param_max ps) (nullish (param_min ps) 1)"
  "status (enqueue_record r mf ps) = (if param_max ps = Null then Succeeded else Pending)"
  "project (enqueue_record r mf ps) = opt_project (options r)"
  "timestamp (enqueue_record r mf ps) = mf_timestamp mf"
  "filename (enqueue_record r mf ps) = mf_filename mf"
  by (simp_all add: enqueue_record_def Let_def DEFAULT_MIN_VALUE_def DEFAULT_BATCH_SIZE_def)

lemma find_append:
  "find P (xs @ ys) = (case find P xs of None \<Rightarrow> find P ys | Some x \<Rightarrow> Some x)"
  by (induction xs) auto

lemma store_ok_tick [simp]: "store_ok (tick w) = store_ok w"
  by (simp add: store_ok_def tick_def)

lemma store_ok_put_row:
  "store_ok w \<Longrightarrow> row_at w i = Some m \<Longrightarrow> row_id m' = row_id m \<Longrightarrow> store_ok (put_row i m' w)"
proof -
  assume ok: "store_ok w" and r: "row_at w i = Some m" and id: "row_id m' = row_id m"
  from r have i: "i < length (rows w)" "rows w ! i = m" by (auto simp: row_at_def split: if_splits)
  have "map row_id ((rows w)[i := m']) = (map row_id (rows w))[i := row_id m]"
    by (simp add: map_update id)
  also have "\<dots> = map row_id (rows w)"
    using i by (simp add: list_update_same_conv)
  finally show ?thesis using ok by (simp add: store_ok_def put_row_def)
qed

lemma store_ok_insert:
  "store_ok w \<Longrightarrow> insertBatchedMigration n w = Inr w' \<Longrightarrow> store_ok w'"
  by (drule insert_Inr) (simp add: store_ok_def tick_def new_row_def)

lemma store_ok_update:
  "store_ok w \<Longrightarrow> store_ok (snd (updateBatchedMigrationStatus i s w))"
  by (cases "row_at w i")
     (auto simp: updateBatchedMigrationStatus_def Let_def intro: store_ok_put_row)

lemma store_ok_getOrStart:
  assumes ok: "store_ok w"
  shows "store_ok (snd (getOrStartMigration r w))"
proof (cases "find (\<lambda>m. project m = opt_project (options r)
                     \<and> (status m = Pending \<or> status m = Running)) (rows w)")
  case None
  with ok show ?thesis by (simp add: getOrStartMigration_def)
next
  case (Some m)
  have "row_at w (row_id m) = Some m" using find_row_at[OF Some ok] .
  from store_ok_put_row[OF ok this, of "m\<lparr>status := Running, updated_at := clock w\<rparr>"]
  have "store_ok (put_row (row_id m) (m\<lparr>status := Running, updated_at := clock w\<rparr>) w)"
    by simp
  with Some ok show ?thesis by (simp add: getOrStartMigration_def Let_def)
qed

lemma insert_no_duplicate:
  "insertBatchedMigration n w = Inr w' \<Longrightarrow> m \<in> set (rows w)
     \<Longrightarrow> \<not> (project m = project n \<and> timestamp m = timestamp n)"
  unfolding insertBatchedMigration_def by (auto split: if_splits)

lemma insert_other_fields:
  assumes "insertBatchedMigration n w = Inr w'"
  shows "batch_log w' = batch_log w" "db w' = db w" "lock_log w' = lock_log w"
  using insert_Inr[OF assms] by (simp_all add: tick_def)

lemma getOrStartMigration_Some:
  assumes "fst (getOrStartMigration r w) = Some m2"
  shows "\<exists>m0 \<in> set (rows w). project m2 = project m0 \<and> timestamp m2 = timestamp m0
            \<and> row_id m2 = row_id m0 \<and> (status m0 = Pending \<or> status m0 = Running)"
proof (cases "find (\<lambda>m. project m = opt_project (options r)
                     \<and> (status m = Pending \<or> status m = Running)) (rows w)")
  case None
  with assms show ?thesis by (simp add: getOrStartMigration_def)
next
  case (Some m0)
  then have "m0 \<in> set (rows w)" "status m0 = Pending \<or> status m0 = Running"
    by (auto simp: find_Some_iff)
  with Some assms show ?thesis
    by (intro bexI[of _ m0]) (auto simp: getOrStartMigration_def Let_def split: if_splits)
qed

lemma getMigrationForIdentifier_disk:
  "disk w' = disk w \<Longrightarrow> getMigrationForIdentifier identifier r w' = getMigrationForIdentifier identifier r w"
  by (simp add: getMigrationForIdentifier_def getMigrationFiles_def split: option.splits)

lemma disk_put_row [simp]: "disk (put_row i m w) = disk w"
  by (simp add: put_row_def)

lemma disk_tick [simp]: "disk (tick w) = disk w"
  by (simp add: tick_def)

lemma rows_tick [simp]: "rows (tick w) = rows w"
  by (simp add: tick_def)

lemma find_put_row:
  assumes ok: "store_ok w" and f: "find P (rows w) = Some m" and p: "P m'"
  shows "find P (rows (put_row (row_id m) m' w)) = Some m'"
proof -
  from f obtain i where i: "i < length (rows w)" "P (rows w ! i)" "m = rows w ! i"
    "\<forall>j<i. \<not> P (rows w ! j)"
    by (auto simp: find_Some_iff)
  from store_ok_nth[OF ok i(1)] i(3) have id: "row_id m = i" by simp
  have "\<exists>k<length ((rows w)[i := m']). P ((rows w)[i := m'] ! k) \<and> m' = (rows w)[i := m'] ! k
          \<and> (\<forall>j<k. \<not> P ((rows w)[i := m'] ! j))"
    using i p by (intro exI[of _ i]) simp
  then show ?thesis by (simp add: find_Some_iff put_row_def id)
qed

lemma select_Inr:
  "selectBatchedMigrationForTimestamp p ts w = Inr m
     \<longleftrightarrow> find (\<lambda>r. project r = p \<and> timestamp r = ts) (rows w) = Some m"
  by (simp add: selectBatchedMigrationForTimestamp_def split: option.splits)

lemma select_fields:
  "selectBatchedMigrationForTimestamp p ts w = Inr m \<Longrightarrow> project m = p \<and> timestamp m = ts"
  by (auto simp: select_Inr find_Some_iff)

lemma force_finalizing:
  assumes ok: "store_ok w"
    and sel: "selectBatchedMigrationForTimestamp p ts w = Inr m"
  shows "updateBatchedMigrationStatus (row_id m) Finalizing w
           = (Inr (m\<lparr>status := Finalizing, updated_at := clock w\<rparr>),
              tick (put_row (row_id m) (m\<lparr>status := Finalizing, updated_at := clock w\<rparr>) w))"
    and "selectBatchedMigrationForTimestamp p ts
           (tick (put_row (row_id m) (m\<lparr>status := Finalizing, updated_at := clock w\<rparr>) w))
         = Inr (m\<lparr>status := Finalizing, updated_at := clock w\<rparr>)"
proof -
  from sel have f: "find (\<lambda>r. project r = p \<and> timestamp r = ts) (rows w) = Some m"
    by (simp add: select_Inr)
  from find_row_at[OF f ok]
  show "updateBatchedMigrationStatus (row_id m) Finalizing w
           = (Inr (m\<lparr>status := Finalizing, updated_at := clock w\<rparr>),
              tick (put_row (row_id m) (m\<lparr>status := Finalizing, updated_at := clock w\<rparr>) w))"
    by (simp add: updateBatchedMigrationStatus_def Let_def)
  from select_fields[OF sel]
  have "project (m\<lparr>status := Finalizing, updated_at := clock w\<rparr>) = p
        \<and> timestamp (m\<lparr>status := Finalizing, updated_at := clock w\<rparr>) = ts" by simp
  from find_put_row[OF ok f, of "m\<lparr>status := Finalizing, updated_at := clock w\<rparr>", OF this]
  show "selectBatchedMigrationForTimestamp p ts
           (tick (put_row (row_id m) (m\<lparr>status := Finalizing, updated_at := clock w\<rparr>) w))
         = Inr (m\<lparr>status := Finalizing, updated_at := clock w\<rparr>)"
    by (simp add: select_Inr)
qed

lemma finalize_unfold:
  assumes ok: "store_ok w"
    and sel: "selectBatchedMigrationForTimestamp (opt_project (options r)) (timestamp_of identifier) w = Inr m"
    and ns: "status m \<noteq> Succeeded"
  shows "finalizeBatchedMigration run identifier r w =
           (case getMigrationForIdentifier identifier r w of
              (Inl e, r1) \<Rightarrow> Some (Inl e, r1, snd (forced m w))
            | (Inr None, r1) \<Rightarrow> Some (Inl (NoMigrationFound identifier), r1, snd (forced m w))
            | (Inr (Some mf), r1) \<Rightarrow>
                (case loadMigrationClass mf (snd (forced m w)) of
                   Inl e \<Rightarrow> Some (Inl e, r1, snd (forced m w))
                 | Inr impl \<Rightarrow>
                     (case run \<lparr>run_signal = None, run_durationMs = None\<rparr>
                             (fst (forced m w)) impl (snd (forced m w)) of
                        None \<Rightarrow> None
                      | Some (Inl e, w2) \<Rightarrow> Some (Inl e, r1, w2)
                      | Some (Inr u, w2) \<Rightarrow>
                          (case selectBatchedMigrationForTimestamp
                                  (opt_project (options r1)) (timestamp_of identifier) w2 of
                             Inl e \<Rightarrow> Some (Inl e, r1, w2)
                           | Inr m2 \<Rightarrow>
                               if status m2 = Succeeded then Some (Inr (), r1, w2)
                               else Some (Inl (NotMarkedSucceeded identifier (status m2)),
                                          r1, w2)))))"
proof (cases "status m = Finalizing")
  case True
  then have fw: "forced m w = (m, w)" by (simp add: forced_def)
  show ?thesis
    unfolding fw fst_conv snd_conv
    using sel ns True by (simp add: finalizeBatchedMigration_def Let_def)
next
  case False
  let ?m1 = "m\<lparr>status := Finalizing, updated_at := clock w\<rparr>"
  let ?w1 = "tick (put_row (row_id m) ?m1 w)"
  have fw: "forced m w = (?m1, ?w1)" using False by (simp add: forced_def)
  have d: "disk ?w1 = disk w" by simp
  show ?thesis
    unfolding fw fst_conv snd_conv
    using sel ns False force_finalizing(1)[OF ok sel]
    by (simp add: finalizeBatchedMigration_def Let_def getMigrationForIdentifier_disk[OF d])
qed

lemma keys_put_row:
  "row_at w i = Some m \<Longrightarrow> project m' = project m \<Longrightarrow> timestamp m' = timestamp m
     \<Longrightarrow> row_id m' = row_id m \<Longrightarrow> keys_of (put_row i m' w) = keys_of w"
  by (auto simp: row_at_def put_row_def keys_of_def map_update list_update_same_conv
           split: if_splits)

lemma keys_tick [simp]: "keys_of (tick w) = keys_of w"
  by (simp add: keys_of_def tick_def)

lemma update_keys:
  "keys_of (snd (updateBatchedMigrationStatus i s w)) = keys_of w"
  by (cases "row_at w i") (simp_all add: updateBatchedMigrationStatus_def Let_def keys_put_row)

lemma run_batches_keys:
  "run_batches n c dl i impl w = Some (res, w') \<Longrightarrow> keys_of w' = keys_of w"
proof (induction n arbitrary: w)
  case 0
  then show ?case by simp
next
  case (Suc n)
  show ?case
  proof (cases "row_at w i")
    case None
    with Suc.prems show ?thesis by simp
  next
    case (Some m)
    let ?b = "next_batch m"
    obtain eo d' where rb: "runBatch impl (fst ?b) (snd ?b) (db w) = (eo, d')"
      by (cases "runBatch impl (fst ?b) (snd ?b) (db w)")
    let ?w0 = "w\<lparr>db := d', batch_log := batch_log w @ [(i, ?b)], clock := clock w + batch_ms w\<rparr>"
    have w0: "keys_of ?w0 = keys_of w" "row_at ?w0 i = Some m"
      using Some by (auto simp: keys_of_def row_at_def split: if_splits)
    have put: "keys_of (put_row i (m\<lparr>cursor := snd ?b\<rparr>) ?w0) = keys_of w"
      using keys_put_row[OF w0(2), of "m\<lparr>cursor := snd ?b\<rparr>"] w0(1) by simp
    consider (finished) "max_value m \<le> cursor m"
      | (halt) "\<not> max_value m \<le> cursor m" "c \<or> past_deadline dl w"
      | (fail) e where "\<not> max_value m \<le> cursor m" "\<not> (c \<or> past_deadline dl w)" "eo = Some e"
      | (go) "\<not> max_value m \<le> cursor m" "\<not> (c \<or> past_deadline dl w)" "eo = None"
      by (cases eo) auto
    then show ?thesis
    proof cases
      case finished
      with Suc.prems Some have "w' = snd (updateBatchedMigrationStatus i Succeeded w)"
        by (auto split: prod.splits sum.splits)
      then show ?thesis by (simp add: update_keys)
    next
      case halt
      with Suc.prems Some show ?thesis by auto
    next
      case fail
      with Suc.prems Some rb have "w' = ?w0" by auto
      with w0(1) show ?thesis by simp
    next
      case go
      with Suc.prems Some rb
      have "run_batches n c dl i impl (put_row i (m\<lparr>cursor := snd ?b\<rparr>) ?w0) = Some (res, w')"
        by auto
      from Suc.IH[OF this] put show ?thesis by simp
    qed
  qed
qed

lemma keys_store_ok: "keys_of w' = keys_of w \<Longrightarrow> store_ok w \<Longrightarrow> store_ok w'"
proof -
  assume k: "keys_of w' = keys_of w" and ok: "store_ok w"
  from k have "map (snd \<circ> snd) (keys_of w') = map (snd \<circ> snd) (keys_of w)" by simp
  then have "map row_id (rows w') = map row_id (rows w)" by (simp add: keys_of_def comp_def)
  moreover from k have "length (rows w') = length (rows w)"
    by (metis keys_of_def length_map)
  ultimately show ?thesis using ok by (simp add: store_ok_def)
qed

lemma keys_select:
  assumes k: "keys_of w' = keys_of w"
    and sel: "selectBatchedMigrationForTimestamp p ts w = Inr m"
    and ok: "store_ok w"
  shows "\<exists>m'. selectBatchedMigrationForTimestamp p ts w' = Inr m' \<and> row_at w' (row_id m) = Some m'"
proof -
  let ?P = "\<lambda>r. project r = p \<and> timestamp r = ts"
  from sel obtain i where i: "i < length (rows w)" "?P (rows w ! i)" "m = rows w ! i"
    "\<forall>j<i. \<not> ?P (rows w ! j)"
    by (auto simp: select_Inr find_Some_iff)
  from k have len: "length (rows w') = length (rows w)" by (metis keys_of_def length_map)
  have key: "\<And>j. j < length (rows w) \<Longrightarrow>
      project (rows w' ! j) = project (rows w ! j) \<and> timestamp (rows w' ! j) = timestamp (rows w ! j)"
  proof -
    fix j assume j: "j < length (rows w)"
    from k have "keys_of w' ! j = keys_of w ! j" by simp
    with j len show "project (rows w' ! j) = project (rows w ! j)
                     \<and> timestamp (rows w' ! j) = timestamp (rows w ! j)"
      by (simp add: keys_of_def)
  qed
  have "\<exists>k<length (rows w'). ?P (rows w' ! k) \<and> rows w' ! i = rows w' ! k
          \<and> (\<forall>j<k. \<not> ?P (rows w' ! j))"
    using i len key by (intro exI[of _ i]) auto
  then have "selectBatchedMigrationForTimestamp p ts w' = Inr (rows w' ! i)"
    by (simp add: select_Inr find_Some_iff)
  moreover have "row_id m = i" using store_ok_nth[OF ok i(1)] i(3) by simp
  ultimately show ?thesis using i(1) len by (simp add: row_at_def)
qed

lemma loadMigrationClass_modules:
  "modules w' = modules w \<Longrightarrow> loadMigrationClass mf w' = loadMigrationClass mf w"
  by (simp add: loadMigrationClass_def)

lemma modules_put_row [simp]: "modules (put_row i m w) = modules w"
  by (simp add: put_row_def)

lemma modules_tick [simp]: "modules (tick w) = modules w"
  by (simp add: tick_def)

lemma lock_log_put_row [simp]: "lock_log (put_row i m w) = lock_log w"
  by (simp add: put_row_def)

lemma lock_log_tick [simp]: "lock_log (tick w) = lock_log w"
  by (simp add: tick_def)

lemma forced_props:
  assumes ok: "store_ok w"
    and sel: "selectBatchedMigrationForTimestamp p ts w = Inr m"
  shows "store_ok (snd (forced m w))"
    and "selectBatchedMigrationForTimestamp p ts (snd (forced m w)) = Inr (fst (forced m w))"
    and "status (fst (forced m w)) = Finalizing"
    and "modules (snd (forced m w)) = modules w"
    and "disk (snd (forced m w)) = disk w"
    and "batch_log (snd (forced m w)) = batch_log w"
    and "lock_log (snd (forced m w)) = lock_log w"
    and "batch_size (fst (forced m w)) = batch_size m"
    and "row_id (fst (forced m w)) = row_id m"
    and "status m = Finalizing \<longrightarrow> forced m w = (m, w)"
    and "status m \<noteq> Finalizing \<longrightarrow>
           updateBatchedMigrationStatus (row_id m) Finalizing w = (Inr (fst (forced m w)), snd (forced m w))"
proof -
  have u: "snd (updateBatchedMigrationStatus (row_id m) Finalizing w)
             = tick (put_row (row_id m) (m\<lparr>status := Finalizing, updated_at := clock w\<rparr>) w)"
    using force_finalizing(1)[OF ok sel] by simp
  show "store_ok (snd (forced m w))"
    using ok store_ok_update[OF ok, of "row_id m" Finalizing] u by (simp add: forced_def)
  show "selectBatchedMigrationForTimestamp p ts (snd (forced m w)) = Inr (fst (forced m w))"
    using sel force_finalizing(2)[OF ok sel] by (simp add: forced_def)
  show "status m \<noteq> Finalizing \<longrightarrow>
           updateBatchedMigrationStatus (row_id m) Finalizing w = (Inr (fst (forced m w)), snd (forced m w))"
    using force_finalizing(1)[OF ok sel] by (simp add: forced_def)
qed (simp_all add: forced_def)

lemma finalize_completes:
  assumes ok: "store_ok w"
    and sel: "selectBatchedMigrationForTimestamp (opt_project (options r)) (timestamp_of identifier) w = Inr m"
    and ns: "status m \<noteq> Succeeded"
    and g: "getMigrationForIdentifier identifier r w = (Inr (Some mf), r1)"
    and l: "loadMigrationClass mf w = Inr impl"
    and bs: "1 \<le> batch_size m"
    and nofail: "\<And>a b d. fst (runBatch impl a b d) = None"
  shows "\<exists>fuel w2 m2.
           finalizeBatchedMigration (BatchedMigrationRunner_run fuel) identifier r w
             = Some (Inr (), r1, w2)
         \<and> selectBatchedMigrationForTimestamp (opt_project (options r)) (timestamp_of identifier) w2
             = Inr m2
         \<and> status m2 = Succeeded"
proof -
  let ?p = "opt_project (options r)" and ?ts = "timestamp_of identifier"
  let ?m1 = "fst (forced m w)" and ?w1 = "snd (forced m w)"
  note fp = forced_props[OF ok sel]
  have row: "row_at ?w1 (row_id ?m1) = Some ?m1"
    using find_row_at[OF _ fp(1)] fp(2) by (simp add: select_Inr)
  have bs1: "1 \<le> batch_size ?m1" using bs fp(8) by simp
  from run_batches_completes[of impl, OF nofail row bs1] obtain n w2 m' where
    run: "run_batches n False None (row_id ?m1) impl ?w1 = Some (Inr (), w2)"
    and r2: "row_at w2 (row_id ?m1) = Some m'" and s2: "status m' = Succeeded"
    by blast
  from keys_select[OF run_batches_keys[OF run] fp(2) fp(1)] r2
  have sel2: "selectBatchedMigrationForTimestamp ?p ?ts w2 = Inr m'" by auto
  have l1: "loadMigrationClass mf ?w1 = Inr impl"
    using l loadMigrationClass_modules[OF fp(4)] by simp
  have o: "options r1 = options r" using getMigrationForIdentifier_Some[OF g] by simp
  have rr: "BatchedMigrationRunner_run n \<lparr>run_signal = None, run_durationMs = None\<rparr> ?m1 impl ?w1
              = Some (Inr (), w2)"
    using run by (simp add: BatchedMigrationRunner_run_def)
  have "finalizeBatchedMigration (BatchedMigrationRunner_run n) identifier r w = Some (Inr (), r1, w2)"
    by (simp add: finalize_unfold[OF ok sel ns] g l1 rr o sel2 s2)
  with sel2 s2 show ?thesis by blast
qed

lemma emit_flags:
  "emit e r = (t, r')
     \<Longrightarrow> aborted r' = aborted r \<and> running r' = running r \<and> options r' = options r
         \<and> listeners r' = listeners r \<and> (\<exists>es. events r' = events r @ es)"
  unfolding emit_def
  by (auto split: if_splits option.splits error_listener.splits)

lemma emit_listening:
  "listening r \<Longrightarrow> emit e r = (None, r\<lparr>events := events r @ [e]\<rparr>)"
  unfolding emit_def listening_def
  by (auto simp: list_all_iff find_Some_iff split: option.splits error_listener.splits)

lemma emit_no_listener:
  "listeners r = [] \<Longrightarrow> emit e r = (Some e, r)"
  by (simp add: emit_def)

lemma getMigrationForIdentifier_flags:
  "getMigrationForIdentifier identifier r w = (res, r')
     \<Longrightarrow> aborted r' = aborted r \<and> running r' = running r \<and> options r' = options r
         \<and> listeners r' = listeners r \<and> events r' = events r"
  unfolding getMigrationForIdentifier_def getMigrationFiles_def
  by (auto simp: Let_def split: option.splits sum.splits)

lemma locked_work_flags:
  "locked_work run d m mf (dw, r, w) = Some (res, dw', r', w')
     \<Longrightarrow> aborted r' = aborted r \<and> running r' = running r \<and> options r' = options r
         \<and> listeners r' = listeners r \<and> (\<exists>es. events r' = events r @ es)"
  unfolding locked_work_def
  by (auto split: sum.splits option.splits prod.splits dest: emit_flags)

lemma tryWithLock_flags:
  "tryWithLock name (locked_work run d m mf) (dw, r, w) = Some (res, dw', r', w')
     \<Longrightarrow> aborted r' = aborted r \<and> running r' = running r \<and> options r' = options r
         \<and> listeners r' = listeners r \<and> (\<exists>es. events r' = events r @ es)"
  unfolding tryWithLock_def
  by (auto split: if_splits dest: locked_work_flags)

lemma maybePerformWork_flags:
  assumes "maybePerformWork run d r w = Some (res, r', w')"
  shows "aborted r' = aborted r \<and> running r' = running r \<and> options r' = options r
         \<and> listeners r' = listeners r \<and> (\<exists>es. events r' = events r @ es)"
proof (cases "getOrStartMigration r w")
  case (Pair mo w1)
  show ?thesis
  proof (cases mo)
    case None
    with Pair assms show ?thesis by (simp add: maybePerformWork_def)
  next
    case (Some m)
    obtain fr r1 where g: "getMigrationForIdentifier (timestamp m) r w1 = (fr, r1)"
      by (cases "getMigrationForIdentifier (timestamp m) r w1")
    note f1 = getMigrationForIdentifier_flags[OF g]
    show ?thesis
    proof (cases fr)
      case (Inl e)
      with Pair Some g assms f1 show ?thesis by (simp add: maybePerformWork_def)
    next
      case (Inr fo)
      show ?thesis
      proof (cases fo)
        case None
        with Pair Some g Inr assms f1 show ?thesis by (simp add: maybePerformWork_def)
      next
        case (Some mf)
        with Pair \<open>mo = Some m\<close> g Inr assms obtain tr dw r2 where
          t: "tryWithLock (lockNameForTimestamp r1 (mf_timestamp mf))
                (locked_work run d m mf) (False, r1, w1) = Some (tr, dw, r2, w')"
          and rr: "r' = r2"
          by (auto simp: maybePerformWork_def split: option.splits sum.splits)
        from tryWithLock_flags[OF t] f1 rr show ?thesis by simp
      qed
    qed
  qed
qed

lemma loop_try_flags:
  assumes "loop_try run r w = Some (res, r', w')"
  shows "aborted r' = aborted r \<and> running r' = running r \<and> options r' = options r
         \<and> listeners r' = listeners r \<and> (\<exists>es. events r' = events r @ es)"
proof (cases "maybePerformWork run (60 * 1000) r w")
  case None
  with assms show ?thesis by (simp add: loop_try_def)
next
  case (Some x)
  obtain mr r1 w1 where x: "x = (mr, r1, w1)" by (cases x)
  from maybePerformWork_flags[OF Some[unfolded x]]
  have f: "aborted r1 = aborted r" "running r1 = running r" "options r1 = options r"
    "listeners r1 = listeners r"
    and ev: "\<exists>es. events r1 = events r @ es" by simp_all
  show ?thesis
  proof (cases mr)
    case (Inl e)
    obtain t r2 where em: "emit e r1 = (t, r2)" by (cases "emit e r1")
    with assms Some x Inl have "r' = r2"
      by (auto simp: loop_try_def split: option.splits)
    with emit_flags[OF em] f ev show ?thesis by auto
  next
    case (Inr b)
    with assms Some x have "r' = r1" by (simp add: loop_try_def)
    with f ev show ?thesis by simp
  qed
qed

lemma loop_try_listening:
  assumes li: "listening r" and lt: "loop_try run r w = Some (res, r', w')"
  shows "\<exists>b. res = Inr b"
proof (cases "maybePerformWork run (60 * 1000) r w")
  case None
  with lt show ?thesis by (simp add: loop_try_def)
next
  case (Some x)
  obtain mr r1 w1 where x: "x = (mr, r1, w1)" by (cases x)
  from maybePerformWork_flags[OF Some[unfolded x]] li
  have l1: "listening r1" by (simp add: listening_def)
  show ?thesis
  proof (cases mr)
    case (Inl e)
    with lt Some x emit_listening[OF l1, of e] show ?thesis
      by (auto simp: loop_try_def)
  next
    case (Inr b)
    with lt Some x show ?thesis by (auto simp: loop_try_def)
  qed
qed

lemma loop_round_flags:
  assumes "loop_round run r w = Some (res, r', w')"
  shows "aborted r' = aborted r \<and> running r' = running r \<and> options r' = options r
         \<and> listeners r' = listeners r \<and> (\<exists>es. events r' = events r @ es)"
proof -
  from assms obtain tr w1 where "loop_try run r w = Some (tr, r', w1)"
    by (auto simp: loop_round_def split: option.splits sum.splits)
  from loop_try_flags[OF this] show ?thesis .
qed

lemma loop_round_listening:
  assumes "listening r" and "loop_round run r w = Some (res, r', w')"
  shows "res = Inr ()"
proof -
  from assms(2) obtain tr w1 where lt: "loop_try run r w = Some (tr, r', w1)"
    and res: "res = (case tr of Inl t \<Rightarrow> Inl t | Inr b \<Rightarrow> Inr ())"
    by (auto simp: loop_round_def split: option.splits sum.splits)
  from loop_try_listening[OF assms(1) lt] res show ?thesis by auto
qed

lemma loop_iteration_continues:
  assumes "\<not> aborted r" and "listening r" and "loop_iteration run r w = Some (res, r', w')"
  shows "res = LoopContinues \<and> running r' = running r \<and> \<not> aborted r' \<and> listening r'
         \<and> (\<exists>es. events r' = events r @ es)"
proof -
  from assms(1,3) obtain rr where lr: "loop_round run r w = Some (rr, r', w')"
    and res: "res = (case rr of Inl t \<Rightarrow> LoopRejected t | Inr u \<Rightarrow> LoopContinues)"
    by (auto simp: loop_iteration_def loop_check_def split: option.splits sum.splits)
  from loop_round_listening[OF assms(2) lr] res have "res = LoopContinues" by simp
  with loop_round_flags[OF lr] assms(1,2) show ?thesis by (simp add: listening_def)
qed

lemma loop_passes_continues:
  "\<not> aborted r \<Longrightarrow> listening r \<Longrightarrow> loop_passes n run r w = Some (res, r', w')
     \<Longrightarrow> res = LoopContinues \<and> running r' = running r \<and> \<not> aborted r'
         \<and> (\<exists>es. events r' = events r @ es)"
proof (induction n arbitrary: r w)
  case 0
  then show ?case by simp
next
  case (Suc n)
  from Suc.prems(3) obtain lr r1 w1 where
    it: "loop_iteration run r w = Some (lr, r1, w1)"
    by (auto split: option.splits)
  from loop_iteration_continues[OF Suc.prems(1,2) it]
  have c: "lr = LoopContinues" "running r1 = running r" "\<not> aborted r1" "listening r1"
    and ev: "\<exists>es. events r1 = events r @ es" by simp_all
  from Suc.prems(3) it c(1) have "loop_passes n run r1 w1 = Some (res, r', w')" by simp
  from Suc.IH[OF c(3,4) this] c(2) ev show ?case by auto
qed

lemma after_check_inv:
  "running (p_runner p) \<Longrightarrow> proc_inv (after_check p)"
  by (simp add: after_check_def loop_check_def proc_inv_def suspended_def dead_def)

lemma after_check_keeps:
  "aborted (p_runner (after_check p)) = aborted (p_runner p)
   \<and> p_world (after_check p) = p_world p"
  by (simp add: after_check_def loop_check_def)

lemma round_ends_inv:
  assumes "round_ends run p = Some p'" and "running (p_runner p)"
  shows "proc_inv p' \<and> aborted (p_runner p') = aborted (p_runner p)"
proof -
  from assms(1) obtain res r1 w1 where
    lt: "loop_try run (p_runner p) (p_world p) = Some (res, r1, w1)"
    by (auto simp: round_ends_def split: option.splits)
  from loop_try_flags[OF lt] assms(2)
  have f: "running r1" "aborted r1 = aborted (p_runner p)" by simp_all
  show ?thesis
  proof (cases res)
    case (Inl e)
    with assms(1) lt have "p' = p\<lparr>p_runner := r1, p_world := w1, p_loop := Dead e\<rparr>"
      by (simp add: round_ends_def)
    with f show ?thesis by (simp add: proc_inv_def dead_def)
  next
    case (Inr b)
    show ?thesis
    proof (cases b)
      case True
      with Inr assms(1) lt have p': "p' = after_check (p\<lparr>p_runner := r1, p_world := w1\<rparr>)"
        by (simp add: round_ends_def)
      from f(1) have "proc_inv (after_check (p\<lparr>p_runner := r1, p_world := w1\<rparr>))"
        by (intro after_check_inv) simp
      with p' f(2) after_check_keeps[of "p\<lparr>p_runner := r1, p_world := w1\<rparr>"]
      show ?thesis by simp
    next
      case False
      with Inr assms(1) lt have "p' = p\<lparr>p_runner := r1, p_world := w1, p_loop := Sleeping\<rparr>"
        by (simp add: round_ends_def)
      with f show ?thesis by (simp add: proc_inv_def suspended_def)
    qed
  qed
qed

lemma sleep_ends_inv:
  "running (p_runner p) \<Longrightarrow>
     proc_inv (sleep_ends p) \<and> aborted (p_runner (sleep_ends p)) = aborted (p_runner p)"
  unfolding sleep_ends_def
  using after_check_inv[of "p\<lparr>p_world := loop_sleep (p_runner p) (p_world p)\<rparr>"]
    after_check_keeps[of "p\<lparr>p_world := loop_sleep (p_runner p) (p_world p)\<rparr>"]
  by simp

lemma loop_resumes_inv:
  assumes "loop_resumes run p = Some p'" and "proc_inv p"
  shows "proc_inv p' \<and> aborted (p_runner p') = aborted (p_runner p)"
proof (cases "p_loop p")
  case InRound
  with assms have "round_ends run p = Some p'" "running (p_runner p)"
    by (simp_all add: loop_resumes_def proc_inv_def suspended_def)
  then show ?thesis by (rule round_ends_inv)
next
  case Sleeping
  with assms have "p' = sleep_ends p" "running (p_runner p)"
    by (simp_all add: loop_resumes_def proc_inv_def suspended_def)
  with sleep_ends_inv[of p] show ?thesis by simp
qed (use assms in \<open>simp_all add: loop_resumes_def\<close>)

lemma loop_resumes_idle:
  "\<not> running (p_runner p) \<Longrightarrow> proc_inv p \<Longrightarrow> loop_resumes run p = Some p"
  by (cases "p_loop p") (simp_all add: loop_resumes_def proc_inv_def suspended_def dead_def)

lemma loop_resumes_dead:
  "dead (p_loop p) \<Longrightarrow> loop_resumes run p = Some p"
  by (cases "p_loop p") (simp_all add: loop_resumes_def dead_def)

lemma proc_start_inv:
  assumes "proc_inv p"
  shows "proc_inv (snd (proc_start p))
         \<and> aborted (p_runner (snd (proc_start p))) = aborted (p_runner p)"
  using assms
  by (simp add: proc_start_def start_def loop_check_def proc_inv_def suspended_def dead_def)

lemma abort_keeps:
  "running (p_runner (abort p)) = running (p_runner p) \<and> p_loop (abort p) = p_loop p
   \<and> p_world (abort p) = p_world p \<and> aborted (p_runner (abort p))
   \<and> proc_inv (abort p) = proc_inv p"
  by (simp add: abort_def proc_inv_def)

lemma poll_sleep_keeps:
  "p_runner (poll_sleep p) = p_runner p \<and> p_loop (poll_sleep p) = p_loop p
   \<and> proc_inv (poll_sleep p) = proc_inv p \<and> work_done (poll_sleep p) = work_done p"
  by (simp add: poll_sleep_def proc_inv_def work_done_def)

lemma spin_not_running:
  "\<not> running (p_runner p) \<Longrightarrow> spin fuel run p = Some p"
  by (cases fuel) simp_all

lemma spin_flag_cleared:
  "spin fuel run p = Some p' \<Longrightarrow> \<not> running (p_runner p')"
proof (induction fuel arbitrary: p)
  case 0
  then show ?case by (simp split: if_splits)
next
  case (Suc n)
  then show ?case by (auto split: if_splits option.splits)
qed

lemma spin_keeps_aborted:
  "spin fuel run p = Some p' \<Longrightarrow> aborted (p_runner p) \<Longrightarrow> aborted (p_runner p')"
proof (induction fuel arbitrary: p)
  case 0
  then show ?case by (simp split: if_splits)
next
  case (Suc n)
  show ?case
  proof (cases "running (p_runner p)")
    case False
    with Suc.prems show ?thesis by simp
  next
    case True
    with Suc.prems(1) obtain q where q: "loop_resumes run p = Some q"
      and s: "spin n run (poll_sleep q) = Some p'"
      by (auto split: option.splits)
    have "aborted (p_runner q)"
    proof (cases "p_loop p")
      case InRound
      with q obtain res r1 w1 where
        lt: "loop_try run (p_runner p) (p_world p) = Some (res, r1, w1)"
        and q': "q = (case res of Inl thrown \<Rightarrow> p\<lparr>p_runner := r1, p_world := w1, p_loop := Dead thrown\<rparr>
                      | Inr didWork \<Rightarrow> if didWork then after_check (p\<lparr>p_runner := r1, p_world := w1\<rparr>)
                                       else p\<lparr>p_runner := r1, p_world := w1, p_loop := Sleeping\<rparr>)"
        by (auto simp: loop_resumes_def round_ends_def split: option.splits sum.splits)
      from loop_try_flags[OF lt] Suc.prems(2) have "aborted r1" by simp
      with q' after_check_keeps[of "p\<lparr>p_runner := r1, p_world := w1\<rparr>"]
      show ?thesis by (cases res) (auto split: if_splits)
    next
      case Sleeping
      with q have "q = sleep_ends p" by (simp add: loop_resumes_def)
      with Suc.prems(2) show ?thesis
        by (simp add: sleep_ends_def loop_sleep_def after_check_def loop_check_def)
    qed (use q Suc.prems(2) in \<open>auto simp: loop_resumes_def\<close>)
    with Suc.IH[OF s] poll_sleep_keeps[of q] show ?thesis by simp
  qed
qed

lemma spin_dead:
  "dead (p_loop p) \<Longrightarrow> running (p_runner p) \<Longrightarrow> spin fuel run p = None"
proof (induction fuel arbitrary: p)
  case 0
  then show ?case by simp
next
  case (Suc n)
  from Suc.IH[of "poll_sleep p"] Suc.prems poll_sleep_keeps[of p]
  show ?case by (simp add: loop_resumes_dead)
qed

lemma run_events_append:
  "run_events run (es @ fs) s
     = (case run_events run es s of None \<Rightarrow> None | Some s' \<Rightarrow> run_events run fs s')"
  by (induction es arbitrary: s) (auto split: option.splits)

lemma spin_is_run:
  "spin fuel run p = Some p' \<Longrightarrow>
     \<exists>evs. run_events run evs (stop_tests p k j)
             = Some \<lparr>s_proc = p', s_spinning = k, s_returned = Suc j\<rparr>"
proof (induction fuel arbitrary: p)
  case 0
  then have "\<not> running (p_runner p)" "p' = p" by (simp_all split: if_splits)
  then have "run_events run [] (stop_tests p k j)
               = Some \<lparr>s_proc = p', s_spinning = k, s_returned = Suc j\<rparr>"
    by (simp add: stop_tests_def)
  then show ?case by blast
next
  case (Suc n)
  show ?case
  proof (cases "running (p_runner p)")
    case False
    with Suc.prems have "p' = p" by simp
    with False have "run_events run [] (stop_tests p k j)
               = Some \<lparr>s_proc = p', s_spinning = k, s_returned = Suc j\<rparr>"
      by (simp add: stop_tests_def)
    then show ?thesis by blast
  next
    case True
    with Suc.prems obtain q where q: "loop_resumes run p = Some q"
      and s: "spin n run (poll_sleep q) = Some p'"
      by (auto split: option.splits)
    from Suc.IH[OF s] obtain evs where
      e: "run_events run evs (stop_tests (poll_sleep q) k j)
            = Some \<lparr>s_proc = p', s_spinning = k, s_returned = Suc j\<rparr>" by blast
    from True q e have "run_events run (LoopResumes # StopPolls # evs) (stop_tests p k j)
            = Some \<lparr>s_proc = p', s_spinning = k, s_returned = Suc j\<rparr>"
      by (simp add: stop_tests_def)
    then show ?thesis by blast
  qed
qed

lemma stop_is_run:
  assumes "stop fuel run (s_proc s) = Some p'"
  shows "\<exists>evs. run_events run (CallStop # evs) s
           = Some (s\<lparr>s_proc := p', s_returned := Suc (s_returned s)\<rparr>)"
proof -
  from spin_is_run[OF assms[unfolded stop_def], of "s_spinning s" "s_returned s"]
  obtain evs where "run_events run evs (stop_tests (abort (s_proc s)) (s_spinning s) (s_returned s))
             = Some \<lparr>s_proc = p', s_spinning = s_spinning s, s_returned = Suc (s_returned s)\<rparr>"
    by blast
  then have "run_events run (CallStop # evs) s
           = Some (s\<lparr>s_proc := p', s_returned := Suc (s_returned s)\<rparr>)"
    by simp
  then show ?thesis by blast
qed

lemma sched_inv_init:
  "\<not> running r \<Longrightarrow> sched_inv (init_sched r w)"
  by (simp add: sched_inv_def init_sched_def proc_inv_def suspended_def dead_def)

lemma sched_inv_step:
  assumes inv: "sched_inv s" and st: "sched_step run e s = Some s'"
  shows "sched_inv s'"
proof (cases e)
  case CallStart
  with st have s': "s' = s\<lparr>s_proc := snd (proc_start (s_proc s))\<rparr>" by simp
  from inv have pi: "proc_inv (s_proc s)" by (simp add: sched_inv_def)
  note a = proc_start_inv[OF pi]
  have "0 < s_returned s \<longrightarrow> \<not> running (p_runner (snd (proc_start (s_proc s))))"
    using inv by (simp add: sched_inv_def proc_start_def start_def loop_check_def)
  with a inv s' show ?thesis by (simp add: sched_inv_def)
next
  case LoopResumes
  with st obtain p where p: "loop_resumes run (s_proc s) = Some p" and s': "s' = s\<lparr>s_proc := p\<rparr>"
    by (auto split: option.splits)
  from inv have pi: "proc_inv (s_proc s)" by (simp add: sched_inv_def)
  note a = loop_resumes_inv[OF p pi]
  have "0 < s_returned s \<longrightarrow> \<not> running (p_runner p)"
  proof
    assume "0 < s_returned s"
    with inv have "\<not> running (p_runner (s_proc s))" by (simp add: sched_inv_def)
    from loop_resumes_idle[OF this pi, of run] p show "\<not> running (p_runner p)"
      using \<open>\<not> running (p_runner (s_proc s))\<close> by simp
  qed
  with a inv s' show ?thesis by (simp add: sched_inv_def)
next
  case CallStop
  with st have s': "s' = stop_tests (abort (s_proc s)) (s_spinning s) (s_returned s)" by simp
  with inv abort_keeps[of "s_proc s"] show ?thesis
    by (auto simp: sched_inv_def stop_tests_def)
next
  case StopPolls
  with st have sp: "s_spinning s \<noteq> 0"
    and s': "s' = stop_tests (poll_sleep (s_proc s)) (s_spinning s - 1) (s_returned s)"
    by (simp_all split: if_splits)
  with inv poll_sleep_keeps[of "s_proc s"] show ?thesis
    by (auto simp: sched_inv_def stop_tests_def)
qed

lemma sched_inv_run:
  "sched_inv s \<Longrightarrow> run_events run evs s = Some s' \<Longrightarrow> sched_inv s'"
proof (induction evs arbitrary: s)
  case Nil
  then show ?case by simp
next
  case (Cons e evs)
  from Cons.prems(2) obtain s1 where s1: "sched_step run e s = Some s1"
    and r: "run_events run evs s1 = Some s'"
    by (auto split: option.splits)
  from Cons.IH[OF sched_inv_step[OF Cons.prems(1) s1] r] show ?case .
qed

lemma sched_inv_stopped:
  "sched_inv s \<Longrightarrow> 0 < s_returned s \<Longrightarrow> stopped (s_proc s)"
  by (cases "p_loop (s_proc s)")
     (auto simp: sched_inv_def stopped_def proc_inv_def suspended_def dead_def)

lemma stopped_step:
  assumes sp: "stopped (s_proc s)" and st: "sched_step run e s = Some s'"
  shows "stopped (s_proc s') \<and> work_done (s_proc s') = work_done (s_proc s)"
proof (cases e)
  case CallStart
  with st have "s' = s\<lparr>s_proc := snd (proc_start (s_proc s))\<rparr>" by simp
  with sp show ?thesis
    by (auto simp: stopped_def proc_start_def start_def loop_check_def work_done_def)
next
  case LoopResumes
  from sp have "loop_resumes run (s_proc s) = Some (s_proc s)"
    by (auto simp: stopped_def loop_resumes_def)
  with LoopResumes st have "s' = s\<lparr>s_proc := s_proc s\<rparr>" by simp
  with sp show ?thesis by simp
next
  case CallStop
  with st have "s_proc s' = abort (s_proc s)" by (auto simp: stop_tests_def)
  with sp show ?thesis by (auto simp: stopped_def abort_def work_done_def)
next
  case StopPolls
  with st have "s_proc s' = poll_sleep (s_proc s)" by (auto simp: stop_tests_def split: if_splits)
  with sp show ?thesis by (auto simp: stopped_def poll_sleep_def work_done_def)
qed

lemma stopped_run:
  "stopped (s_proc s) \<Longrightarrow> run_events run evs s = Some s'
     \<Longrightarrow> stopped (s_proc s') \<and> work_done (s_proc s') = work_done (s_proc s)"
proof (induction evs arbitrary: s)
  case Nil
  then show ?case by simp
next
  case (Cons e evs)
  from Cons.prems(2) obtain s1 where s1: "sched_step run e s = Some s1"
    and r: "run_events run evs s1 = Some s'"
    by (auto split: option.splits)
  from stopped_step[OF Cons.prems(1) s1] Cons.IH[OF _ r] show ?case by simp
qed

lemma stop_sleeping:
  assumes "p_loop p = Sleeping" and "running (p_runner p)"
  shows "stop (Suc fuel) run p = Some (poll_sleep (sleep_ends (abort p)))"
proof -
  have "\<not> running (p_runner (poll_sleep (sleep_ends (abort p))))"
    by (simp add: poll_sleep_def sleep_ends_def loop_sleep_def after_check_def loop_check_def abort_def)
  from spin_not_running[OF this] assms show ?thesis
    by (simp add: stop_def abort_keeps loop_resumes_def)
qed

lemma stop_round_worked:
  assumes "p_loop p = InRound" and "running (p_runner p)"
    and lt: "loop_try run (p_runner (abort p)) (p_world p) = Some (Inr True, r1, w1)"
  shows "stop (Suc fuel) run p
           = Some (poll_sleep (after_check ((abort p)\<lparr>p_runner := r1, p_world := w1\<rparr>)))"
proof -
  from loop_try_flags[OF lt] have ab: "aborted r1" by (simp add: abort_def)
  have re: "round_ends run (abort p)
              = Some (after_check ((abort p)\<lparr>p_runner := r1, p_world := w1\<rparr>))"
    using lt by (simp add: round_ends_def abort_keeps)
  have "\<not> running (p_runner (poll_sleep (after_check ((abort p)\<lparr>p_runner := r1, p_world := w1\<rparr>))))"
    using ab by (simp add: poll_sleep_def after_check_def loop_check_def)
  from spin_not_running[OF this] assms(1,2) re show ?thesis
    by (simp add: stop_def abort_keeps loop_resumes_def)
qed

lemma stop_round_idle:
  assumes "p_loop p = InRound" and "running (p_runner p)"
    and lt: "loop_try run (p_runner (abort p)) (p_world p) = Some (Inr False, r1, w1)"
  shows "stop (Suc (Suc fuel)) run p
           = Some (poll_sleep (sleep_ends (poll_sleep
                     ((abort p)\<lparr>p_runner := r1, p_world := w1, p_loop := Sleeping\<rparr>))))"
proof -
  let ?q = "(abort p)\<lparr>p_runner := r1, p_world := w1, p_loop := Sleeping\<rparr>"
  from loop_try_flags[OF lt] assms(2) have ab: "aborted r1" and rn: "running r1"
    by (simp_all add: abort_def)
  have re: "round_ends run (abort p) = Some ?q"
    using lt by (simp add: round_ends_def abort_keeps)
  have nr: "\<not> running (p_runner (poll_sleep (sleep_ends (poll_sleep ?q))))"
    using ab by (simp add: poll_sleep_def sleep_ends_def loop_sleep_def after_check_def loop_check_def)
  have "spin (Suc fuel) run (poll_sleep ?q) = Some (poll_sleep (sleep_ends (poll_sleep ?q)))"
    using spin_not_running[OF nr, of fuel run] rn
    by (simp add: loop_resumes_def poll_sleep_keeps)
  with assms(1,2) re show ?thesis
    by (simp add: stop_def abort_keeps loop_resumes_def)
qed

lemma stop_round_throws:
  assumes "p_loop p = InRound" and "running (p_runner p)"
    and lt: "loop_try run (p_runner (abort p)) (p_world p) = Some (Inl e, r1, w1)"
  shows "stop fuel run p = None"
proof (cases fuel)
  case 0
  with assms(2) show ?thesis by (simp add: stop_def abort_keeps)
next
  case (Suc n)
  let ?q = "(abort p)\<lparr>p_runner := r1, p_world := w1, p_loop := Dead e\<rparr>"
  from loop_try_flags[OF lt] assms(2) have rn: "running r1" by (simp add: abort_def)
  have re: "round_ends run (abort p) = Some ?q"
    using lt by (simp add: round_ends_def abort_keeps)
  have "spin n run (poll_sleep ?q) = None"
    by (rule spin_dead) (simp_all add: poll_sleep_keeps dead_def rn)
  with Suc assms(1,2) re show ?thesis
    by (simp add: stop_def abort_keeps loop_resumes_def)
qed

lemma stop_dead:
  "dead (p_loop p) \<Longrightarrow> running (p_runner p) \<Longrightarrow> stop fuel run p = None"
  unfolding stop_def by (rule spin_dead) (simp_all add: abort_keeps)

lemma attempt_chain_append:
  "attempt_chain bs hi c A1 c1 k1 \<Longrightarrow> attempt_chain bs hi c1 A2 c2 k2
     \<Longrightarrow> attempt_chain bs hi c (A1 @ A2) c2 (k1 + k2)"
proof (induction A1 arbitrary: c k1)
  case Nil
  then show ?case by simp
next
  case (Cons x A1)
  from Cons.prems(1) have x: "c < hi" "x = (c + 1, min (c + bs) hi)" by simp_all
  from Cons.prems(1) consider
      (ok) "attempt_chain bs hi (snd x) A1 c1 k1"
    | (failed) "0 < k1" "attempt_chain bs hi c A1 c1 (k1 - 1)"
    by auto
  then show ?case
  proof cases
    case ok
    from Cons.IH[OF ok Cons.prems(2)] x show ?thesis by simp
  next
    case failed
    from Cons.IH[OF failed(2) Cons.prems(2)] failed(1)
    have "attempt_chain bs hi c (A1 @ A2) c2 (k1 + k2 - 1)" by simp
    with x failed(1) show ?thesis by simp
  qed
qed

lemma attempt_chain_upper:
  "attempt_chain bs hi c A c' k \<Longrightarrow> c \<le> hi \<Longrightarrow> c' \<le> hi"
  by (induction A arbitrary: c k) auto

lemma attempt_chain_stuck:
  "attempt_chain bs hi c A c' k \<Longrightarrow> bs \<le> 0 \<Longrightarrow> c' \<le> c"
  by (induction A arbitrary: c k) fastforce+

lemma attempt_chain_done:
  "attempt_chain bs hi c A c' k \<Longrightarrow> hi \<le> c \<Longrightarrow> A = [] \<and> c' = c \<and> k = 0"
  by (cases A) auto

lemma attempt_chain_successes:
  "attempt_chain bs hi c A hi k \<Longrightarrow> 1 \<le> bs \<Longrightarrow> c \<le> hi
     \<Longrightarrow> batch_chain bs hi c (remdups_adj A) hi \<and> length A = length (remdups_adj A) + k"
proof (induction A arbitrary: c k)
  case Nil
  then show ?case by simp
next
  case (Cons x A)
  from Cons.prems(1) have x: "c < hi" "x = (c + 1, min (c + bs) hi)" by simp_all
  from x Cons.prems(2) have adv: "c < snd x" "snd x \<le> hi" by simp_all
  from Cons.prems(1) consider
      (ok) "attempt_chain bs hi (snd x) A hi k"
    | (failed) "0 < k" "attempt_chain bs hi c A hi (k - 1)"
    by auto
  then show ?case
  proof cases
    case ok
    from Cons.IH[OF ok Cons.prems(2) adv(2)]
    have ih: "batch_chain bs hi (snd x) (remdups_adj A) hi"
      "length A = length (remdups_adj A) + k" by simp_all
    show ?thesis
    proof (cases A)
      case Nil
      with ok x ih show ?thesis by simp
    next
      case (Cons y A')
      with ok have "fst y = snd x + 1" by auto
      with adv x have "y \<noteq> x" by auto
      with Cons have "remdups_adj (x # A) = x # remdups_adj A" by simp
      with ih x show ?thesis by simp
    qed
  next
    case failed
    from Cons.IH[OF failed(2) Cons.prems(2,3)]
    have ih: "batch_chain bs hi c (remdups_adj A) hi"
      "length A = length (remdups_adj A) + (k - 1)" by simp_all
    from failed(2) x(1) obtain A' where A: "A = x # A'"
      by (cases A) (auto simp: x(2))
    then have "remdups_adj (x # A) = remdups_adj A" by simp
    with ih failed(1) show ?thesis by simp
  qed
qed

lemma remdups_adj_same_length:
  "length (remdups_adj xs) = length xs \<Longrightarrow> remdups_adj xs = xs"
proof (induction xs rule: remdups_adj.induct)
  case (3 x y xs)
  show ?case
  proof (cases "x = y")
    case True
    with 3(3) have "length (remdups_adj (x # xs)) = Suc (Suc (length xs))" by simp
    moreover have "length (remdups_adj (x # xs)) \<le> Suc (length xs)"
      using remdups_adj_length[of "x # xs"] by simp
    ultimately show ?thesis by simp
  next
    case False
    with 3 show ?thesis by simp
  qed
qed simp_all

lemma run_batches_attempts:
  "run_batches n cancelled dl i impl w = Some (res, w') \<Longrightarrow> row_at w i = Some m \<Longrightarrow>
   \<exists>A m'. row_at w' i = Some m' \<and> batch_log w' = batch_log w @ map (Pair i) A
      \<and> attempt_chain (batch_size m) (max_value m) (cursor m) A (cursor m')
          (if isl res then 1 else 0)
      \<and> batch_size m' = batch_size m \<and> max_value m' = max_value m \<and> min_value m' = min_value m
      \<and> (status m' \<noteq> status m \<longrightarrow> status m' = Succeeded \<and> max_value m \<le> cursor m')"
proof (induction n arbitrary: w m)
  case 0
  then show ?case by simp
next
  case (Suc n)
  have len: "i < length (rows w)" using Suc.prems(2) by (rule row_at_Some_length)
  show ?case
  proof (cases "max_value m \<le> cursor m")
    case True
    with Suc.prems len have "w' = tick (put_row i (m\<lparr>status := Succeeded, updated_at := clock w\<rparr>) w)"
      and "res = Inr ()"
      by (auto simp: updateBatchedMigrationStatus_def Let_def)
    with len True show ?thesis
      by (intro exI[of _ "[]"] exI[of _ "m\<lparr>status := Succeeded, updated_at := clock w\<rparr>"]) simp
  next
    case notdone: False
    show ?thesis
    proof (cases "cancelled \<or> past_deadline dl w")
      case True
      with Suc.prems notdone have "w' = w" "res = Inr ()" by auto
      with Suc.prems(2) show ?thesis
        by (intro exI[of _ "[]"] exI[of _ m]) simp
    next
      case False
      obtain eo d' where rb: "runBatch impl (fst (next_batch m)) (snd (next_batch m)) (db w) = (eo, d')"
        by (cases "runBatch impl (fst (next_batch m)) (snd (next_batch m)) (db w)")
      let ?m1 = "m\<lparr>cursor := snd (next_batch m)\<rparr>"
      let ?w0 = "w\<lparr>db := d', batch_log := batch_log w @ [(i, next_batch m)],
                         clock := clock w + batch_ms w\<rparr>"
      let ?w1 = "put_row i ?m1 ?w0"
      show ?thesis
      proof (cases eo)
        case (Some e)
        with Suc.prems notdone False rb have r: "res = Inl e" "w' = ?w0" by auto
        have "row_at ?w0 i = Some m" using Suc.prems(2) by (simp add: row_at_def split: if_splits)
        with r notdone show ?thesis
          by (intro exI[of _ "[next_batch m]"] exI[of _ m]) (simp add: next_batch_def)
      next
        case None
        with Suc.prems notdone False rb
        have rec: "run_batches n cancelled dl i impl ?w1 = Some (res, w')" by auto
        have r1: "row_at ?w1 i = Some ?m1" using len by simp
        from Suc.IH[OF rec r1] obtain A m' where
          a: "row_at w' i = Some m'" and b: "batch_log w' = batch_log ?w1 @ map (Pair i) A"
          and c: "attempt_chain (batch_size ?m1) (max_value ?m1) (cursor ?m1) A (cursor m')
                    (if isl res then 1 else 0)"
          and d: "batch_size m' = batch_size ?m1" "max_value m' = max_value ?m1"
            "min_value m' = min_value ?m1"
          and e: "status m' \<noteq> status ?m1 \<longrightarrow> status m' = Succeeded \<and> max_value ?m1 \<le> cursor m'"
          by blast
        show ?thesis
          using a b c d e notdone
          by (intro exI[of _ "next_batch m # A"] exI[of _ m'])
             (simp add: next_batch_def)
      qed
    qed
  qed
qed

lemma run_repeatedly_attempts:
  "run_repeatedly fuel os m0 impl w = Some (ress, w') \<Longrightarrow> row_at w (row_id m0) = Some m \<Longrightarrow>
   \<exists>A m'. row_at w' (row_id m0) = Some m' \<and> batch_log w' = batch_log w @ map (Pair (row_id m0)) A
      \<and> attempt_chain (batch_size m) (max_value m) (cursor m) A (cursor m')
          (length (filter isl ress))
      \<and> batch_size m' = batch_size m \<and> max_value m' = max_value m \<and> min_value m' = min_value m
      \<and> (status m' \<noteq> status m \<longrightarrow> status m' = Succeeded \<and> max_value m \<le> cursor m')"
proof (induction os arbitrary: w m ress)
  case Nil
  then show ?case by (intro exI[of _ "[]"] exI[of _ m]) simp
next
  case (Cons opts rest)
  from Cons.prems(1) obtain res1 w1 ress2 where
    r1: "BatchedMigrationRunner_run fuel opts m0 impl w = Some (res1, w1)"
    and r2: "run_repeatedly fuel rest m0 impl w1 = Some (ress2, w')"
    and rs: "ress = res1 # ress2"
    by (auto split: option.splits)
  from run_batches_attempts[OF r1[unfolded BatchedMigrationRunner_run_def] Cons.prems(2)]
  obtain A1 m1 where
    a1: "row_at w1 (row_id m0) = Some m1" and b1: "batch_log w1 = batch_log w @ map (Pair (row_id m0)) A1"
    and c1: "attempt_chain (batch_size m) (max_value m) (cursor m) A1 (cursor m1)
               (if isl res1 then 1 else 0)"
    and d1: "batch_size m1 = batch_size m" "max_value m1 = max_value m" "min_value m1 = min_value m"
    and e1: "status m1 \<noteq> status m \<longrightarrow> status m1 = Succeeded \<and> max_value m \<le> cursor m1"
    by blast
  from Cons.IH[OF r2 a1] obtain A2 m2 where
    a2: "row_at w' (row_id m0) = Some m2" and b2: "batch_log w' = batch_log w1 @ map (Pair (row_id m0)) A2"
    and c2: "attempt_chain (batch_size m1) (max_value m1) (cursor m1) A2 (cursor m2)
               (length (filter isl ress2))"
    and d2: "batch_size m2 = batch_size m1" "max_value m2 = max_value m1" "min_value m2 = min_value m1"
    and e2: "status m2 \<noteq> status m1 \<longrightarrow> status m2 = Succeeded \<and> max_value m1 \<le> cursor m2"
    by blast
  have "attempt_chain (batch_size m) (max_value m) (cursor m) (A1 @ A2) (cursor m2)
          ((if isl res1 then 1 else 0) + length (filter isl ress2))"
    using attempt_chain_append[OF c1] c2 d1 by simp
  then have ch: "attempt_chain (batch_size m) (max_value m) (cursor m) (A1 @ A2) (cursor m2)
          (length (filter isl ress))"
    using rs by (cases "isl res1") simp_all
  have st: "status m2 \<noteq> status m \<longrightarrow> status m2 = Succeeded \<and> max_value m \<le> cursor m2"
  proof (cases "status m2 = status m1")
    case True
    show ?thesis
    proof
      assume "status m2 \<noteq> status m"
      with True e1 have s1: "status m1 = Succeeded" "max_value m \<le> cursor m1" by auto
      with attempt_chain_done[OF c2] d1 have "cursor m2 = cursor m1" by simp
      with True s1 show "status m2 = Succeeded \<and> max_value m \<le> cursor m2" by simp
    qed
  next
    case False
    with e2 d1 show ?thesis by simp
  qed
  show ?case
    using a2 b1 b2 ch d1 d2 st
    by (intro exI[of _ "A1 @ A2"] exI[of _ m2]) simp
qed

text \<open>
  A pass of \<open>loop_iteration\<close> is the check followed by the resumptions of the loop up
  to its next check: the end of the round and, when it did no work, the end of the sleep.
\<close>

lemma loop_iteration_as_resumptions:
  "loop_iteration run (p_runner p) (p_world p) =
     (if aborted (p_runner p)
      then Some (LoopExited, p_runner (after_check p), p_world (after_check p))
      else
        (case round_ends run (p\<lparr>p_loop := InRound\<rparr>) of
           None \<Rightarrow> None
         | Some q \<Rightarrow>
             (case p_loop q of
                Dead e \<Rightarrow> Some (LoopRejected e, p_runner q, p_world q)
              | Sleeping \<Rightarrow>
                  Some (LoopContinues, p_runner (sleep_ends q), p_world (sleep_ends q))
              | _ \<Rightarrow> Some (LoopContinues, p_runner q, p_world q))))"
proof (cases "aborted (p_runner p)")
  case True
  then show ?thesis by (simp add: loop_iteration_def loop_check_def after_check_def)
next
  case False
  show ?thesis
  proof (cases "loop_try run (p_runner p) (p_world p)")
    case None
    with False show ?thesis
      by (simp add: loop_iteration_def loop_check_def loop_round_def round_ends_def)
  next
    case (Some x)
    obtain res r1 w1 where x: "x = (res, r1, w1)" by (cases x)
    from loop_try_flags[OF Some[unfolded x]] False have na: "\<not> aborted r1" by simp
    show ?thesis
    proof (cases res)
      case (Inl e)
      with False Some x show ?thesis
        by (simp add: loop_iteration_def loop_check_def loop_round_def round_ends_def)
    next
      case (Inr b)
      with False Some x na show ?thesis
        by (cases b)
           (simp_all add: loop_iteration_def loop_check_def loop_round_def round_ends_def
              sleep_ends_def after_check_def)
    qed
  qed
qed

section \<open>The claims\<close>

text \<open>
  C1, as stated, fails: a batch function that throws is invoked again on the same subrange
  by the next run. With a migration whose first invocation throws, two runs take the
  record over the range 1 to 2500 to \<open>succeeded\<close>, the first run throwing, and invoke
  the batch function on \<open>[1, 1000]\<close> twice: the unit 500 is covered by two invocations.
\<close>
theorem batch_runner_repeats_failed_batch_counterexample:
  "run_summary (run_repeatedly 5 [no_limits, no_limits] demo_row flaky_migration
                  (demo_world [demo_row]))
     = Some ([Inl (External ''batch failed''), Inr ()], [Succeeded],
             [(0, 1, 1000), (0, 1, 1000), (0, 1001, 2000), (0, 2001, 2500)])
   \<and> coverage 500 (run_repeatedly 5 [no_limits, no_limits] demo_row flaky_migration
                     (demo_world [demo_row])) = Some 2"
  by code_simp

text \<open>
  C1, amended. For every migration record with \<open>min_value \<le> max_value\<close> whose cursor
  starts before the range, invoking the batch runner repeatedly, with any options and
  whether or not a run throws, until the record is \<open>succeeded\<close> invokes the batch
  function only on subranges \<open>[cursor+1, min(cursor+batch_size, max_value)]\<close>. The
  invocations, immediate repetitions of a subrange left out, partition
  \<open>[min_value, max_value]\<close>: they are contiguous, each has size at most \<open>batch_size\<close>,
  and every unit of the range lies in exactly one of them (and no unit outside the range
  in any). A subrange is repeated once for each run that threw, so when no run throws
  nothing is repeated and every unit is covered by exactly one invocation. Moreover, when
  the batch size is positive and no batch fails, a single run without limits does
  complete.
\<close>
theorem batch_runner_partitions_range_up_to_repeats:
  assumes row: "row_at w (row_id m) = Some m"
    and fresh: "cursor m = min_value m - 1" "status m \<noteq> Succeeded"
    and range: "min_value m \<le> max_value m"
  shows "(\<forall>fuel os ress w' m'.
            run_repeatedly fuel os m impl w = Some (ress, w')
              \<and> row_at w' (row_id m) = Some m' \<and> status m' = Succeeded
            \<longrightarrow> (\<exists>A. batch_log w' = batch_log w @ map (Pair (row_id m)) A
                  \<and> batch_chain (batch_size m) (max_value m) (min_value m - 1)
                      (remdups_adj A) (max_value m)
                  \<and> partitions (remdups_adj A) (min_value m) (max_value m) (batch_size m)
                  \<and> (\<forall>u. length (filter (covers u) (remdups_adj A))
                           = (if min_value m \<le> u \<and> u \<le> max_value m then 1 else 0))
                  \<and> length A = length (remdups_adj A) + length (filter isl ress)
                  \<and> (filter isl ress = [] \<longrightarrow> remdups_adj A = A)))
       \<and> (1 \<le> batch_size m \<and> (\<forall>a b d. fst (runBatch impl a b d) = None)
            \<longrightarrow> (\<exists>fuel w' m'.
                  BatchedMigrationRunner_run fuel \<lparr>run_signal = None, run_durationMs = None\<rparr>
                      m impl w = Some (Inr (), w')
                    \<and> row_at w' (row_id m) = Some m' \<and> status m' = Succeeded))"
proof (intro conjI allI impI)
  fix fuel os ress w' m'
  assume h: "run_repeatedly fuel os m impl w = Some (ress, w')
              \<and> row_at w' (row_id m) = Some m' \<and> status m' = Succeeded"
  from run_repeatedly_attempts[OF h[THEN conjunct1] row] h obtain A where
    lg: "batch_log w' = batch_log w @ map (Pair (row_id m)) A"
    and ch: "attempt_chain (batch_size m) (max_value m) (cursor m) A (cursor m')
               (length (filter isl ress))"
    and st: "status m' \<noteq> status m \<longrightarrow> status m' = Succeeded \<and> max_value m \<le> cursor m'"
    by auto
  from st h fresh have ge: "max_value m \<le> cursor m'" by auto
  from attempt_chain_upper[OF ch] fresh range have "cursor m' \<le> max_value m" by simp
  with ge have eq: "cursor m' = max_value m" by simp
  have bs: "1 \<le> batch_size m"
  proof (rule ccontr)
    assume "\<not> 1 \<le> batch_size m"
    then have "batch_size m \<le> 0" by simp
    from attempt_chain_stuck[OF ch this] eq fresh range show False by simp
  qed
  from ch eq fresh have ch': "attempt_chain (batch_size m) (max_value m) (min_value m - 1) A
                                (max_value m) (length (filter isl ress))"
    by simp
  from attempt_chain_successes[OF ch' bs] range
  have bc: "batch_chain (batch_size m) (max_value m) (min_value m - 1) (remdups_adj A) (max_value m)"
    and ln: "length A = length (remdups_adj A) + length (filter isl ress)" by simp_all
  from batch_chain_partitions[OF bc bs] range
  have pt: "partitions (remdups_adj A) (min_value m) (max_value m) (batch_size m)" by simp
  have cv: "\<forall>u. length (filter (covers u) (remdups_adj A))
                 = (if min_value m \<le> u \<and> u \<le> max_value m then 1 else 0)"
  proof
    fix u
    consider "u < min_value m" | "min_value m \<le> u \<and> u \<le> max_value m" | "max_value m < u"
      by linarith
    then show "length (filter (covers u) (remdups_adj A))
                 = (if min_value m \<le> u \<and> u \<le> max_value m then 1 else 0)"
    proof cases
      case 1
      with partitions_covers_below[OF pt] show ?thesis by simp
    next
      case 2
      with partitions_covers_once[OF pt] show ?thesis by simp
    next
      case 3
      with partitions_covers_above[OF pt] show ?thesis by simp
    qed
  qed
  have nr: "filter isl ress = [] \<longrightarrow> remdups_adj A = A"
  proof
    assume "filter isl ress = []"
    with ln have "length (remdups_adj A) = length A" by simp
    then show "remdups_adj A = A" by (rule remdups_adj_same_length)
  qed
  from lg bc pt cv ln nr
  show "\<exists>A. batch_log w' = batch_log w @ map (Pair (row_id m)) A
          \<and> batch_chain (batch_size m) (max_value m) (min_value m - 1)
              (remdups_adj A) (max_value m)
          \<and> partitions (remdups_adj A) (min_value m) (max_value m) (batch_size m)
          \<and> (\<forall>u. length (filter (covers u) (remdups_adj A))
                   = (if min_value m \<le> u \<and> u \<le> max_value m then 1 else 0))
          \<and> length A = length (remdups_adj A) + length (filter isl ress)
          \<and> (filter isl ress = [] \<longrightarrow> remdups_adj A = A)"
    by blast
next
  assume h: "1 \<le> batch_size m \<and> (\<forall>a b d. fst (runBatch impl a b d) = None)"
  then have ok: "\<And>a b d. fst (runBatch impl a b d) = None" by simp
  from run_batches_completes[of impl, OF ok row] h
  show "\<exists>fuel w' m'.
          BatchedMigrationRunner_run fuel \<lparr>run_signal = None, run_durationMs = None\<rparr>
              m impl w = Some (Inr (), w')
            \<and> row_at w' (row_id m) = Some m' \<and> status m' = Succeeded"
    by (simp add: BatchedMigrationRunner_run_def)
qed

theorem batch_runner_partitions_range_up_to_repeats_witness:
  "row_at (demo_world [demo_row]) (row_id demo_row) = Some demo_row
   \<and> cursor demo_row = min_value demo_row - 1 \<and> status demo_row \<noteq> Succeeded
   \<and> min_value demo_row \<le> max_value demo_row
   \<and> (\<exists>ress w' m'. run_repeatedly 5 demo_runs demo_row demo_migration (demo_world [demo_row])
                  = Some (ress, w')
          \<and> row_at w' 0 = Some m' \<and> status m' = Succeeded \<and> filter isl ress = []
          \<and> (\<exists>A. batch_log w' = map (Pair 0) A \<and> partitions A 1 2500 1000
                 \<and> length (filter (covers 1700) A) = 1))
   \<and> (\<exists>ress w' m'. run_repeatedly 5 [no_limits, no_limits] demo_row flaky_migration
                      (demo_world [demo_row])
                  = Some (ress, w')
          \<and> row_at w' 0 = Some m' \<and> status m' = Succeeded \<and> length (filter isl ress) = 1
          \<and> (\<exists>A. batch_log w' = map (Pair 0) A \<and> partitions (remdups_adj A) 1 2500 1000
                 \<and> length (filter (covers 500) (remdups_adj A)) = 1
                 \<and> length A = length (remdups_adj A) + 1))
   \<and> 1 \<le> batch_size demo_row \<and> (\<forall>a b d. fst (runBatch demo_migration a b d) = None)
   \<and> (\<exists>fuel w' m'.
         BatchedMigrationRunner_run fuel \<lparr>run_signal = None, run_durationMs = None\<rparr>
             demo_row demo_migration (demo_world [demo_row]) = Some (Inr (), w')
           \<and> row_at w' (row_id demo_row) = Some m' \<and> status m' = Succeeded)"
proof -
  let ?w = "demo_world [demo_row]"
  have h1: "row_at ?w (row_id demo_row) = Some demo_row"
    by (simp add: row_at_def demo_world_def demo_row_def)
  have h2: "cursor demo_row = min_value demo_row - 1" by (simp add: demo_row_def)
  have h3: "status demo_row \<noteq> Succeeded" by (simp add: demo_row_def)
  have h4: "min_value demo_row \<le> max_value demo_row" by (simp add: demo_row_def)
  have h5: "1 \<le> batch_size demo_row" by (simp add: demo_row_def)
  have h6: "\<forall>a b d. fst (runBatch demo_migration a b d) = None"
    by (simp add: demo_migration_def)
  have f: "row_id demo_row = 0" "min_value demo_row = 1" "max_value demo_row = 2500"
    "batch_size demo_row = 1000" "batch_log ?w = []"
    by (simp_all add: demo_row_def demo_world_def)
  let ?R = "run_repeatedly 5 demo_runs demo_row demo_migration ?w"
  have ev: "map_option (\<lambda>x. (filter isl (fst x), map status (rows (snd x)))) ?R
              = Some ([], [Succeeded])"
    by code_simp
  then obtain ress w' where run: "?R = Some (ress, w')" and nf: "filter isl ress = []"
    and st: "map status (rows w') = [Succeeded]"
    by (cases ?R) auto
  from st obtain m' where m': "row_at w' 0 = Some m'" "status m' = Succeeded"
    by (cases "rows w'") (auto simp: row_at_def)
  have pre: "?R = Some (ress, w') \<and> row_at w' (row_id demo_row) = Some m' \<and> status m' = Succeeded"
    using run m' f(1) by simp
  from batch_runner_partitions_range_up_to_repeats[OF h1 h2 h3 h4, of demo_migration,
         THEN conjunct1, rule_format, OF pre]
  obtain A where A: "batch_log w' = batch_log ?w @ map (Pair (row_id demo_row)) A"
    "partitions (remdups_adj A) (min_value demo_row) (max_value demo_row) (batch_size demo_row)"
    "\<forall>u. length (filter (covers u) (remdups_adj A))
           = (if min_value demo_row \<le> u \<and> u \<le> max_value demo_row then 1 else 0)"
    "filter isl ress = [] \<longrightarrow> remdups_adj A = A"
    by blast
  from A(4) nf have same: "remdups_adj A = A" by simp
  from A(1) have l1: "batch_log w' = map (Pair 0) A" by (simp add: f)
  from A(2) same have l2: "partitions A 1 2500 1000" by (simp add: f)
  from A(3)[rule_format, of 1700] same have l3: "length (filter (covers 1700) A) = 1"
    by (simp add: f)
  from l1 l2 l3 run m' nf have c1: "\<exists>ress w' m'. ?R = Some (ress, w')
          \<and> row_at w' 0 = Some m' \<and> status m' = Succeeded \<and> filter isl ress = []
          \<and> (\<exists>A. batch_log w' = map (Pair 0) A \<and> partitions A 1 2500 1000
                 \<and> length (filter (covers 1700) A) = 1)"
    by blast
  let ?F = "run_repeatedly 5 [no_limits, no_limits] demo_row flaky_migration ?w"
  have evf: "map_option (\<lambda>x. (length (filter isl (fst x)), map status (rows (snd x)))) ?F
              = Some (1, [Succeeded])"
    by code_simp
  then obtain rf wf where runf: "?F = Some (rf, wf)" and nff: "length (filter isl rf) = 1"
    and stf: "map status (rows wf) = [Succeeded]"
    by (cases ?F) auto
  from stf obtain mf where mf: "row_at wf 0 = Some mf" "status mf = Succeeded"
    by (cases "rows wf") (auto simp: row_at_def)
  have pref: "?F = Some (rf, wf) \<and> row_at wf (row_id demo_row) = Some mf \<and> status mf = Succeeded"
    using runf mf f(1) by simp
  from batch_runner_partitions_range_up_to_repeats[OF h1 h2 h3 h4, of flaky_migration,
         THEN conjunct1, rule_format, OF pref]
  obtain B where B: "batch_log wf = batch_log ?w @ map (Pair (row_id demo_row)) B"
    "partitions (remdups_adj B) (min_value demo_row) (max_value demo_row) (batch_size demo_row)"
    "\<forall>u. length (filter (covers u) (remdups_adj B))
           = (if min_value demo_row \<le> u \<and> u \<le> max_value demo_row then 1 else 0)"
    "length B = length (remdups_adj B) + length (filter isl rf)"
    by blast
  from B(1) have k1: "batch_log wf = map (Pair 0) B" by (simp add: f)
  from B(2) have k2: "partitions (remdups_adj B) 1 2500 1000" by (simp add: f)
  from B(3)[rule_format, of 500] have k3: "length (filter (covers 500) (remdups_adj B)) = 1"
    by (simp add: f)
  from B(4) nff have k4: "length B = length (remdups_adj B) + 1" by simp
  from k1 k2 k3 k4 runf mf nff have c2: "\<exists>ress w' m'. ?F = Some (ress, w')
          \<and> row_at w' 0 = Some m' \<and> status m' = Succeeded \<and> length (filter isl ress) = 1
          \<and> (\<exists>A. batch_log w' = map (Pair 0) A \<and> partitions (remdups_adj A) 1 2500 1000
                 \<and> length (filter (covers 500) (remdups_adj A)) = 1
                 \<and> length A = length (remdups_adj A) + 1)"
    by blast
  from batch_runner_partitions_range_up_to_repeats[OF h1 h2 h3 h4, of demo_migration,
         THEN conjunct2] h5 h6
  have c3: "\<exists>fuel w' m'.
         BatchedMigrationRunner_run fuel \<lparr>run_signal = None, run_durationMs = None\<rparr>
             demo_row demo_migration ?w = Some (Inr (), w')
           \<and> row_at w' (row_id demo_row) = Some m' \<and> status m' = Succeeded"
    by blast
  from h1 h2 h3 h4 h5 h6 c1 c2 c3 show ?thesis by blast
qed




text \<open>
  C3 does not hold of the code. With the row \<open>running\<close> at cursor 2000 of 2500 and the
  lock \<^verbatim>\<open>batched-migrations:pl:20230406184103\<close> held by another process, a scheduling
  round does no work, but \<^verbatim>\<open>finalizeBatchedMigration\<close> runs the batch
  \<open>[2001, 2500]\<close> and marks the row \<open>succeeded\<close> without acquiring any lock.
\<close>

theorem finalize_takes_no_lock:
  "lockNameForTimestamp demo_runner ''20230406184103'' \<in> set (held_elsewhere locked_world)
   \<and> outcome (maybePerformWork (BatchedMigrationRunner_run 5) 60000 demo_runner locked_world)
       = Some (Inr False, [Running], [], [])
   \<and> outcome (finalizeBatchedMigration (BatchedMigrationRunner_run 5)
                 ''20230406184103_backfill'' demo_runner locked_world)
       = Some (Inr (), [Succeeded], [(0, 2001, 2500)], [])"
  by code_simp

text \<open>
  C4. For a row found for the identifier's timestamp, \<^verbatim>\<open>finalizeBatchedMigration\<close> is a
  no-op that returns normally when the status is already \<open>succeeded\<close>. Otherwise it
  forces the status to \<open>finalizing\<close>, skipping the update when the row is already
  there, and, the definition being resolved, runs the batch runner with neither signal nor
  time limit: when the runner does not return, neither does finalize; when it throws, the
  error propagates; when it returns, the row is read again and finalize returns normally
  if and only if that status is \<open>succeeded\<close>, throwing the inconsistency error with any
  other status. With the batch runner of the specification, a positive batch size and no
  failing batch, finalize does return normally, the row then being \<open>succeeded\<close>.
\<close>

theorem finalize_contract:
  assumes ok: "store_ok w"
    and sel: "selectBatchedMigrationForTimestamp (opt_project (options r)) (timestamp_of identifier) w = Inr m"
  shows "(status m = Succeeded \<longrightarrow>
            finalizeBatchedMigration run identifier r w = Some (Inr (), r, w))
       \<and> (status m \<noteq> Succeeded \<longrightarrow>
            (\<exists>m1 w1.
               (status m = Finalizing \<longrightarrow> m1 = m \<and> w1 = w)
             \<and> (status m \<noteq> Finalizing \<longrightarrow>
                   updateBatchedMigrationStatus (row_id m) Finalizing w = (Inr m1, w1))
             \<and> selectBatchedMigrationForTimestamp (opt_project (options r))
                  (timestamp_of identifier) w1 = Inr m1
             \<and> status m1 = Finalizing
             \<and> (\<forall>mf r1 impl.
                   getMigrationForIdentifier identifier r w = (Inr (Some mf), r1)
                     \<and> loadMigrationClass mf w = Inr impl
                   \<longrightarrow>
                     (run \<lparr>run_signal = None, run_durationMs = None\<rparr> m1 impl w1 = None
                        \<longrightarrow> finalizeBatchedMigration run identifier r w = None)
                   \<and> (\<forall>e w2. run \<lparr>run_signal = None, run_durationMs = None\<rparr> m1 impl w1
                                 = Some (Inl e, w2)
                        \<longrightarrow> finalizeBatchedMigration run identifier r w = Some (Inl e, r1, w2))
                   \<and> (\<forall>w2 m2. run \<lparr>run_signal = None, run_durationMs = None\<rparr> m1 impl w1
                                 = Some (Inr (), w2)
                          \<and> selectBatchedMigrationForTimestamp (opt_project (options r))
                               (timestamp_of identifier) w2 = Inr m2
                        \<longrightarrow> finalizeBatchedMigration run identifier r w
                              = Some (if status m2 = Succeeded then Inr ()
                                      else Inl (NotMarkedSucceeded identifier (status m2)),
                                      r1, w2))
                   \<and> (1 \<le> batch_size m \<and> (\<forall>a b d. fst (runBatch impl a b d) = None)
                        \<longrightarrow> (\<exists>fuel w2 m2.
                               finalizeBatchedMigration (BatchedMigrationRunner_run fuel)
                                   identifier r w = Some (Inr (), r1, w2)
                             \<and> selectBatchedMigrationForTimestamp (opt_project (options r))
                                  (timestamp_of identifier) w2 = Inr m2
                             \<and> status m2 = Succeeded)))))"
proof (intro conjI impI)
  assume "status m = Succeeded"
  with sel show "finalizeBatchedMigration run identifier r w = Some (Inr (), r, w)"
    by (simp add: finalizeBatchedMigration_def Let_def)
next
  assume ns: "status m \<noteq> Succeeded"
  note fp = forced_props[OF ok sel]
  note fu = finalize_unfold[OF ok sel ns]
  let ?m1 = "fst (forced m w)" and ?w1 = "snd (forced m w)"
  let ?no = "\<lparr>run_signal = None, run_durationMs = None\<rparr>"
  have files: "\<forall>mf r1 impl.
       getMigrationForIdentifier identifier r w = (Inr (Some mf), r1)
         \<and> loadMigrationClass mf w = Inr impl
       \<longrightarrow>
         (run ?no ?m1 impl ?w1 = None \<longrightarrow> finalizeBatchedMigration run identifier r w = None)
       \<and> (\<forall>e w2. run ?no ?m1 impl ?w1 = Some (Inl e, w2)
            \<longrightarrow> finalizeBatchedMigration run identifier r w = Some (Inl e, r1, w2))
       \<and> (\<forall>w2 m2. run ?no ?m1 impl ?w1 = Some (Inr (), w2)
              \<and> selectBatchedMigrationForTimestamp (opt_project (options r))
                   (timestamp_of identifier) w2 = Inr m2
            \<longrightarrow> finalizeBatchedMigration run identifier r w
                  = Some (if status m2 = Succeeded then Inr ()
                          else Inl (NotMarkedSucceeded identifier (status m2)), r1, w2))
       \<and> (1 \<le> batch_size m \<and> (\<forall>a b d. fst (runBatch impl a b d) = None)
            \<longrightarrow> (\<exists>fuel w2 m2.
                   finalizeBatchedMigration (BatchedMigrationRunner_run fuel)
                       identifier r w = Some (Inr (), r1, w2)
                 \<and> selectBatchedMigrationForTimestamp (opt_project (options r))
                      (timestamp_of identifier) w2 = Inr m2
                 \<and> status m2 = Succeeded))"
  proof (intro allI impI, elim conjE)
    fix mf r1 impl
    assume g: "getMigrationForIdentifier identifier r w = (Inr (Some mf), r1)"
      and l: "loadMigrationClass mf w = Inr impl"
    have l1: "loadMigrationClass mf ?w1 = Inr impl"
      using l loadMigrationClass_modules[OF fp(4)] by simp
    have o: "options r1 = options r" using getMigrationForIdentifier_Some[OF g] by simp
    have a: "run ?no ?m1 impl ?w1 = None \<longrightarrow> finalizeBatchedMigration run identifier r w = None"
      by (simp add: fu g l1)
    have b: "\<forall>e w2. run ?no ?m1 impl ?w1 = Some (Inl e, w2)
            \<longrightarrow> finalizeBatchedMigration run identifier r w = Some (Inl e, r1, w2)"
      by (simp add: fu g l1)
    have c: "\<forall>w2 m2. run ?no ?m1 impl ?w1 = Some (Inr (), w2)
              \<and> selectBatchedMigrationForTimestamp (opt_project (options r))
                   (timestamp_of identifier) w2 = Inr m2
            \<longrightarrow> finalizeBatchedMigration run identifier r w
                  = Some (if status m2 = Succeeded then Inr ()
                          else Inl (NotMarkedSucceeded identifier (status m2)), r1, w2)"
      by (simp add: fu g l1 o)
    have d: "1 \<le> batch_size m \<and> (\<forall>a b d. fst (runBatch impl a b d) = None)
            \<longrightarrow> (\<exists>fuel w2 m2.
                   finalizeBatchedMigration (BatchedMigrationRunner_run fuel)
                       identifier r w = Some (Inr (), r1, w2)
                 \<and> selectBatchedMigrationForTimestamp (opt_project (options r))
                      (timestamp_of identifier) w2 = Inr m2
                 \<and> status m2 = Succeeded)"
      using finalize_completes[OF ok sel ns g l] by blast
    from a b c d show
      "(run ?no ?m1 impl ?w1 = None \<longrightarrow> finalizeBatchedMigration run identifier r w = None)
       \<and> (\<forall>e w2. run ?no ?m1 impl ?w1 = Some (Inl e, w2)
            \<longrightarrow> finalizeBatchedMigration run identifier r w = Some (Inl e, r1, w2))
       \<and> (\<forall>w2 m2. run ?no ?m1 impl ?w1 = Some (Inr (), w2)
              \<and> selectBatchedMigrationForTimestamp (opt_project (options r))
                   (timestamp_of identifier) w2 = Inr m2
            \<longrightarrow> finalizeBatchedMigration run identifier r w
                  = Some (if status m2 = Succeeded then Inr ()
                          else Inl (NotMarkedSucceeded identifier (status m2)), r1, w2))
       \<and> (1 \<le> batch_size m \<and> (\<forall>a b d. fst (runBatch impl a b d) = None)
            \<longrightarrow> (\<exists>fuel w2 m2.
                   finalizeBatchedMigration (BatchedMigrationRunner_run fuel)
                       identifier r w = Some (Inr (), r1, w2)
                 \<and> selectBatchedMigrationForTimestamp (opt_project (options r))
                      (timestamp_of identifier) w2 = Inr m2
                 \<and> status m2 = Succeeded))"
      by blast
  qed
  show "\<exists>m1 w1.
               (status m = Finalizing \<longrightarrow> m1 = m \<and> w1 = w)
             \<and> (status m \<noteq> Finalizing \<longrightarrow>
                   updateBatchedMigrationStatus (row_id m) Finalizing w = (Inr m1, w1))
             \<and> selectBatchedMigrationForTimestamp (opt_project (options r))
                  (timestamp_of identifier) w1 = Inr m1
             \<and> status m1 = Finalizing
             \<and> (\<forall>mf r1 impl.
                   getMigrationForIdentifier identifier r w = (Inr (Some mf), r1)
                     \<and> loadMigrationClass mf w = Inr impl
                   \<longrightarrow>
                     (run \<lparr>run_signal = None, run_durationMs = None\<rparr> m1 impl w1 = None
                        \<longrightarrow> finalizeBatchedMigration run identifier r w = None)
                   \<and> (\<forall>e w2. run \<lparr>run_signal = None, run_durationMs = None\<rparr> m1 impl w1
                                 = Some (Inl e, w2)
                        \<longrightarrow> finalizeBatchedMigration run identifier r w = Some (Inl e, r1, w2))
                   \<and> (\<forall>w2 m2. run \<lparr>run_signal = None, run_durationMs = None\<rparr> m1 impl w1
                                 = Some (Inr (), w2)
                          \<and> selectBatchedMigrationForTimestamp (opt_project (options r))
                               (timestamp_of identifier) w2 = Inr m2
                        \<longrightarrow> finalizeBatchedMigration run identifier r w
                              = Some (if status m2 = Succeeded then Inr ()
                                      else Inl (NotMarkedSucceeded identifier (status m2)),
                                      r1, w2))
                   \<and> (1 \<le> batch_size m \<and> (\<forall>a b d. fst (runBatch impl a b d) = None)
                        \<longrightarrow> (\<exists>fuel w2 m2.
                               finalizeBatchedMigration (BatchedMigrationRunner_run fuel)
                                   identifier r w = Some (Inr (), r1, w2)
                             \<and> selectBatchedMigrationForTimestamp (opt_project (options r))
                                  (timestamp_of identifier) w2 = Inr m2
                             \<and> status m2 = Succeeded)))"
    using fp(2,3,10,11) files
    by (intro exI[of _ ?m1] exI[of _ ?w1]) simp
qed

theorem finalize_contract_witness:
  "store_ok (demo_world [stuck_row])
   \<and> selectBatchedMigrationForTimestamp (opt_project (options demo_runner))
        (timestamp_of ''20230406184103_backfill'') (demo_world [stuck_row]) = Inr stuck_row
   \<and> status stuck_row \<noteq> Succeeded
   \<and> getMigrationForIdentifier ''20230406184103_backfill'' demo_runner (demo_world [stuck_row])
       = (Inr (Some demo_file), demo_runner\<lparr>migrationFiles := Some [demo_file]\<rparr>)
   \<and> loadMigrationClass demo_file (demo_world [stuck_row]) = Inr demo_migration
   \<and> 1 \<le> batch_size stuck_row \<and> (\<forall>a b d. fst (runBatch demo_migration a b d) = None)
   \<and> (\<exists>fuel w2 m2.
         finalizeBatchedMigration (BatchedMigrationRunner_run fuel) ''20230406184103_backfill''
             demo_runner (demo_world [stuck_row])
           = Some (Inr (), demo_runner\<lparr>migrationFiles := Some [demo_file]\<rparr>, w2)
       \<and> selectBatchedMigrationForTimestamp (opt_project (options demo_runner))
            (timestamp_of ''20230406184103_backfill'') w2 = Inr m2
       \<and> status m2 = Succeeded)
   \<and> outcome (finalizeBatchedMigration (BatchedMigrationRunner_run 5)
                 ''20230406184103_backfill'' demo_runner (demo_world [stuck_row]))
       = Some (Inr (), [Succeeded], [(0, 2001, 2500)], [])"
proof -
  have h1: "store_ok (demo_world [stuck_row])" by code_simp
  have h2: "selectBatchedMigrationForTimestamp (opt_project (options demo_runner))
        (timestamp_of ''20230406184103_backfill'') (demo_world [stuck_row]) = Inr stuck_row"
    by code_simp
  have h3: "status stuck_row \<noteq> Succeeded" by code_simp
  have h4: "getMigrationForIdentifier ''20230406184103_backfill'' demo_runner
              (demo_world [stuck_row])
       = (Inr (Some demo_file), demo_runner\<lparr>migrationFiles := Some [demo_file]\<rparr>)"
    by code_simp
  have h5: "loadMigrationClass demo_file (demo_world [stuck_row]) = Inr demo_migration"
    by (simp add: loadMigrationClass_def demo_world_def)
  have h6: "1 \<le> batch_size stuck_row" by code_simp
  have h7: "\<forall>a b d. fst (runBatch demo_migration a b d) = None"
    by (simp add: demo_migration_def)
  have ev: "outcome (finalizeBatchedMigration (BatchedMigrationRunner_run 5)
                 ''20230406184103_backfill'' demo_runner (demo_world [stuck_row]))
       = Some (Inr (), [Succeeded], [(0, 2001, 2500)], [])"
    by code_simp
  from finalize_contract[OF h1 h2, of "BatchedMigrationRunner_run 5", THEN conjunct2, rule_format, OF h3]
  obtain m1 w1 where
    "\<forall>mf r1 impl.
        getMigrationForIdentifier ''20230406184103_backfill'' demo_runner (demo_world [stuck_row])
          = (Inr (Some mf), r1)
          \<and> loadMigrationClass mf (demo_world [stuck_row]) = Inr impl
        \<longrightarrow> (1 \<le> batch_size stuck_row \<and> (\<forall>a b d. fst (runBatch impl a b d) = None)
              \<longrightarrow> (\<exists>fuel w2 m2.
                     finalizeBatchedMigration (BatchedMigrationRunner_run fuel)
                         ''20230406184103_backfill'' demo_runner (demo_world [stuck_row])
                       = Some (Inr (), r1, w2)
                   \<and> selectBatchedMigrationForTimestamp (opt_project (options demo_runner))
                        (timestamp_of ''20230406184103_backfill'') w2 = Inr m2
                   \<and> status m2 = Succeeded))"
    by blast
  from this[rule_format, of demo_file "demo_runner\<lparr>migrationFiles := Some [demo_file]\<rparr>"
              demo_migration] h4 h5 h6 h7
  have c: "\<exists>fuel w2 m2.
         finalizeBatchedMigration (BatchedMigrationRunner_run fuel) ''20230406184103_backfill''
             demo_runner (demo_world [stuck_row])
           = Some (Inr (), demo_runner\<lparr>migrationFiles := Some [demo_file]\<rparr>, w2)
       \<and> selectBatchedMigrationForTimestamp (opt_project (options demo_runner))
            (timestamp_of ''20230406184103_backfill'') w2 = Inr m2
       \<and> status m2 = Succeeded"
    by blast
  from h1 h2 h3 h4 h5 h6 h7 c ev show ?thesis by blast
qed

text \<open>
  C5. Take a runner whose loop was never started, and any sequence of calls of
  \<^verbatim>\<open>start\<close> and \<^verbatim>\<open>stop\<close> (which may overlap), resumptions of the loop and polls of
  the spinning calls of \<^verbatim>\<open>stop\<close>. Once a call of \<^verbatim>\<open>stop\<close> has returned, the signal
  is aborted, the running flag is cleared and the loop has returned (or was never
  started); and whatever happens afterwards, this stays so and the batches invoked, the
  locks acquired and the rows of the table stay as they are. A call of \<^verbatim>\<open>stop\<close> that
  returns is such a sequence, from its abort of the signal through its polls, and it
  leaves the process stopped. \<^verbatim>\<open>stop\<close> does not return while the flag is set. When the
  loop is asleep, \<^verbatim>\<open>stop\<close> returns after one poll, the sleep having been cut short and
  no work done. When the loop is in a round, \<^verbatim>\<open>stop\<close> returns after that round has
  ended, and what was done is the work of that round; when the round ends with
  \<^verbatim>\<open>loop\<close> rejecting, or \<^verbatim>\<open>loop\<close> has rejected before, the flag is never cleared
  and \<^verbatim>\<open>stop\<close> never returns.
\<close>
theorem stop_returns_after_loop_exit:
  assumes init: "\<not> running r0"
    and reach: "run_events run evs (init_sched r0 w0) = Some s"
  shows "(0 < s_returned s \<longrightarrow>
            stopped (s_proc s)
          \<and> (\<forall>evs' s'. run_events run evs' s = Some s'
                \<longrightarrow> stopped (s_proc s') \<and> work_done (s_proc s') = work_done (s_proc s)))
       \<and> (\<forall>fuel p'. stop fuel run (s_proc s) = Some p'
            \<longrightarrow> stopped p'
              \<and> (\<exists>evs'. run_events run (CallStop # evs') s
                          = Some (s\<lparr>s_proc := p', s_returned := Suc (s_returned s)\<rparr>)))
       \<and> (running (p_runner (s_proc s)) \<longrightarrow> stop 0 run (s_proc s) = None)
       \<and> (p_loop (s_proc s) = Sleeping
            \<longrightarrow> stop (Suc fuel) run (s_proc s) = Some (poll_sleep (sleep_ends (abort (s_proc s))))
              \<and> work_done (poll_sleep (sleep_ends (abort (s_proc s)))) = work_done (s_proc s))
       \<and> (p_loop (s_proc s) = InRound
            \<longrightarrow> (\<forall>b r1 w1. loop_try run (p_runner (abort (s_proc s))) (p_world (s_proc s))
                             = Some (Inr b, r1, w1)
                   \<longrightarrow> (\<exists>p'. stop (Suc (Suc fuel)) run (s_proc s) = Some p'
                            \<and> work_done p' = (batch_log w1, lock_log w1, rows w1)))
              \<and> (\<forall>e r1 w1. loop_try run (p_runner (abort (s_proc s))) (p_world (s_proc s))
                             = Some (Inl e, r1, w1)
                   \<longrightarrow> stop fuel run (s_proc s) = None))
       \<and> (dead (p_loop (s_proc s)) \<longrightarrow> stop fuel run (s_proc s) = None)"
proof -
  let ?p = "s_proc s"
  from sched_inv_run[OF sched_inv_init[OF init] reach] have inv: "sched_inv s" .
  then have pi: "proc_inv ?p" by (simp add: sched_inv_def)
  have c1: "0 < s_returned s \<longrightarrow>
            stopped ?p
          \<and> (\<forall>evs' s'. run_events run evs' s = Some s'
                \<longrightarrow> stopped (s_proc s') \<and> work_done (s_proc s') = work_done ?p)"
  proof
    assume "0 < s_returned s"
    from sched_inv_stopped[OF inv this] have sp: "stopped ?p" .
    with stopped_run[OF sp] show "stopped ?p
          \<and> (\<forall>evs' s'. run_events run evs' s = Some s'
                \<longrightarrow> stopped (s_proc s') \<and> work_done (s_proc s') = work_done ?p)"
      by blast
  qed
  have c2: "\<forall>fuel p'. stop fuel run ?p = Some p'
            \<longrightarrow> stopped p'
              \<and> (\<exists>evs'. run_events run (CallStop # evs') s
                          = Some (s\<lparr>s_proc := p', s_returned := Suc (s_returned s)\<rparr>))"
  proof (intro allI impI)
    fix fuel p'
    assume st: "stop fuel run ?p = Some p'"
    from stop_is_run[OF st] obtain evs' where
      r: "run_events run (CallStop # evs') s
            = Some (s\<lparr>s_proc := p', s_returned := Suc (s_returned s)\<rparr>)" by blast
    from sched_inv_run[OF inv r] have "sched_inv (s\<lparr>s_proc := p', s_returned := Suc (s_returned s)\<rparr>)" .
    from sched_inv_stopped[OF this] have "stopped p'" by simp
    with r show "stopped p'
              \<and> (\<exists>evs'. run_events run (CallStop # evs') s
                          = Some (s\<lparr>s_proc := p', s_returned := Suc (s_returned s)\<rparr>))"
      by blast
  qed
  have c3: "running (p_runner ?p) \<longrightarrow> stop 0 run ?p = None"
    by (simp add: stop_def abort_keeps)
  have c4: "p_loop ?p = Sleeping
            \<longrightarrow> stop (Suc fuel) run ?p = Some (poll_sleep (sleep_ends (abort ?p)))
              \<and> work_done (poll_sleep (sleep_ends (abort ?p))) = work_done ?p"
  proof
    assume sl: "p_loop ?p = Sleeping"
    with pi have rn: "running (p_runner ?p)" by (simp add: proc_inv_def suspended_def)
    have "work_done (poll_sleep (sleep_ends (abort ?p))) = work_done ?p"
      by (simp add: poll_sleep_def work_done_def sleep_ends_def loop_sleep_def after_check_def abort_def)
    with stop_sleeping[OF sl rn]
    show "stop (Suc fuel) run ?p = Some (poll_sleep (sleep_ends (abort ?p)))
              \<and> work_done (poll_sleep (sleep_ends (abort ?p))) = work_done ?p"
      by simp
  qed
  have c5: "p_loop ?p = InRound
            \<longrightarrow> (\<forall>b r1 w1. loop_try run (p_runner (abort ?p)) (p_world ?p)
                             = Some (Inr b, r1, w1)
                   \<longrightarrow> (\<exists>p'. stop (Suc (Suc fuel)) run ?p = Some p'
                            \<and> work_done p' = (batch_log w1, lock_log w1, rows w1)))
              \<and> (\<forall>e r1 w1. loop_try run (p_runner (abort ?p)) (p_world ?p)
                             = Some (Inl e, r1, w1)
                   \<longrightarrow> stop fuel run ?p = None)"
  proof (intro impI conjI allI)
    fix b r1 w1
    assume ir: "p_loop ?p = InRound"
      and lt: "loop_try run (p_runner (abort ?p)) (p_world ?p) = Some (Inr b, r1, w1)"
    from ir pi have rn: "running (p_runner ?p)" by (simp add: proc_inv_def suspended_def)
    show "\<exists>p'. stop (Suc (Suc fuel)) run ?p = Some p'
            \<and> work_done p' = (batch_log w1, lock_log w1, rows w1)"
    proof (cases b)
      case True
      with stop_round_worked[OF ir rn, of run r1 w1 "Suc fuel"] lt
      have "stop (Suc (Suc fuel)) run ?p
              = Some (poll_sleep (after_check ((abort ?p)\<lparr>p_runner := r1, p_world := w1\<rparr>)))"
        by simp
      moreover have "work_done (poll_sleep (after_check ((abort ?p)\<lparr>p_runner := r1, p_world := w1\<rparr>)))
                       = (batch_log w1, lock_log w1, rows w1)"
        by (simp add: poll_sleep_def work_done_def after_check_def)
      ultimately show ?thesis by blast
    next
      case False
      with stop_round_idle[OF ir rn, of run r1 w1 fuel] lt
      have "stop (Suc (Suc fuel)) run ?p
              = Some (poll_sleep (sleep_ends (poll_sleep
                     ((abort ?p)\<lparr>p_runner := r1, p_world := w1, p_loop := Sleeping\<rparr>))))"
        by simp
      moreover from loop_try_flags[OF lt] have "aborted r1" by (simp add: abort_def)
      then have "work_done (poll_sleep (sleep_ends (poll_sleep
                     ((abort ?p)\<lparr>p_runner := r1, p_world := w1, p_loop := Sleeping\<rparr>))))
                       = (batch_log w1, lock_log w1, rows w1)"
        by (simp add: poll_sleep_def work_done_def sleep_ends_def loop_sleep_def after_check_def)
      ultimately show ?thesis by blast
    qed
  next
    fix e r1 w1
    assume ir: "p_loop ?p = InRound"
      and lt: "loop_try run (p_runner (abort ?p)) (p_world ?p) = Some (Inl e, r1, w1)"
    from ir pi have rn: "running (p_runner ?p)" by (simp add: proc_inv_def suspended_def)
    from stop_round_throws[OF ir rn lt] show "stop fuel run ?p = None" .
  qed
  have c6: "dead (p_loop ?p) \<longrightarrow> stop fuel run ?p = None"
  proof
    assume d: "dead (p_loop ?p)"
    with pi have "running (p_runner ?p)" by (simp add: proc_inv_def)
    from stop_dead[OF d this] show "stop fuel run ?p = None" .
  qed
  from c1 c2 c3 c4 c5 c6 show ?thesis by blast
qed

theorem stop_returns_after_loop_exit_witness:
  "\<not> running demo_runner
   \<and> map_option s_returned
        (run_events (BatchedMigrationRunner_run 5)
           [CallStart, LoopResumes, CallStop, LoopResumes, StopPolls, LoopResumes, StopPolls]
           (init_sched demo_runner (demo_world [demo_row]))) = Some 1
   \<and> map_option (stopped \<circ> s_proc)
        (run_events (BatchedMigrationRunner_run 5)
           [CallStart, LoopResumes, CallStop, LoopResumes, StopPolls, LoopResumes, StopPolls]
           (init_sched demo_runner (demo_world [demo_row]))) = Some True
   \<and> map_option (fst \<circ> work_done \<circ> s_proc)
        (run_events (BatchedMigrationRunner_run 5)
           [CallStart, LoopResumes, CallStop, LoopResumes, StopPolls, LoopResumes, StopPolls]
           (init_sched demo_runner (demo_world [demo_row])))
       = Some [(0, 1, 1000), (0, 1001, 2000), (0, 2001, 2500)]
   \<and> map_option s_returned
        (run_events (BatchedMigrationRunner_run 5)
           ([CallStart, LoopResumes, CallStop, LoopResumes, StopPolls, LoopResumes, StopPolls]
              @ [CallStart, LoopResumes, CallStop])
           (init_sched demo_runner (demo_world [demo_row]))) = Some 2
   \<and> map_option (work_done \<circ> s_proc)
        (run_events (BatchedMigrationRunner_run 5)
           ([CallStart, LoopResumes, CallStop, LoopResumes, StopPolls, LoopResumes, StopPolls]
              @ [CallStart, LoopResumes, CallStop])
           (init_sched demo_runner (demo_world [demo_row])))
       = map_option (work_done \<circ> s_proc)
           (run_events (BatchedMigrationRunner_run 5)
              [CallStart, LoopResumes, CallStop, LoopResumes, StopPolls, LoopResumes, StopPolls]
              (init_sched demo_runner (demo_world [demo_row])))
   \<and> map_option (\<lambda>s. (running (p_runner (s_proc s)), p_loop (s_proc s)))
        (run_events (BatchedMigrationRunner_run 5) [CallStart]
           (init_sched demo_runner (demo_world [demo_row]))) = Some (True, InRound)
   \<and> map_option (\<lambda>s. stop 0 (BatchedMigrationRunner_run 5) (s_proc s) = None)
        (run_events (BatchedMigrationRunner_run 5) [CallStart]
           (init_sched demo_runner (demo_world [demo_row]))) = Some True
   \<and> map_option (\<lambda>s. map_option (\<lambda>p. (p_loop p, stopped p, fst (work_done p)))
                         (stop 1 (BatchedMigrationRunner_run 5) (s_proc s)))
        (run_events (BatchedMigrationRunner_run 5) [CallStart]
           (init_sched demo_runner (demo_world [demo_row]))) = Some (Some (Exited, True, []))
   \<and> map_option (\<lambda>s. map_option fst
                         (loop_try (BatchedMigrationRunner_run 5) (p_runner (abort (s_proc s)))
                            (p_world (s_proc s))))
        (run_events (BatchedMigrationRunner_run 5) [CallStart]
           (init_sched demo_runner (demo_world [demo_row]))) = Some (Some (Inr True))
   \<and> map_option (\<lambda>s. \<exists>p'. stop 2 (BatchedMigrationRunner_run 5) (s_proc s) = Some p')
        (run_events (BatchedMigrationRunner_run 5) [CallStart]
           (init_sched demo_runner (demo_world [demo_row]))) = Some True
   \<and> map_option (p_loop \<circ> s_proc)
        (run_events (BatchedMigrationRunner_run 5) [CallStart, LoopResumes]
           (init_sched demo_runner (demo_world []))) = Some Sleeping
   \<and> map_option (\<lambda>s. stop 1 (BatchedMigrationRunner_run 5) (s_proc s)
                         = Some (poll_sleep (sleep_ends (abort (s_proc s)))))
        (run_events (BatchedMigrationRunner_run 5) [CallStart, LoopResumes]
           (init_sched demo_runner (demo_world []))) = Some True
   \<and> map_option (\<lambda>s. map_option fst
                         (loop_try (BatchedMigrationRunner_run 5) (p_runner (abort (s_proc s)))
                            (p_world (s_proc s))))
        (run_events (BatchedMigrationRunner_run 5) [CallStart]
           (init_sched demo_runner broken_world))
       = Some (Some (Inl (InvalidMigrationClass ''batched-migrations/20230406184103_backfill.ts'')))
   \<and> map_option (\<lambda>s. stop 3 (BatchedMigrationRunner_run 5) (s_proc s) = None)
        (run_events (BatchedMigrationRunner_run 5) [CallStart]
           (init_sched demo_runner broken_world)) = Some True
   \<and> map_option (p_loop \<circ> s_proc)
        (run_events (BatchedMigrationRunner_run 5) [CallStart, LoopResumes]
           (init_sched demo_runner failing_world)) = Some (Dead (External ''batch failed''))
   \<and> map_option (\<lambda>s. stop 3 (BatchedMigrationRunner_run 5) (s_proc s) = None)
        (run_events (BatchedMigrationRunner_run 5) [CallStart, LoopResumes]
           (init_sched demo_runner failing_world)) = Some True"
proof -
  let ?run = "BatchedMigrationRunner_run 5 :: int runner_fn"
  let ?I = "init_sched demo_runner (demo_world [demo_row])"
  let ?e1 = "[CallStart, LoopResumes, CallStop, LoopResumes, StopPolls, LoopResumes, StopPolls]"
  let ?e2 = "[CallStart, LoopResumes, CallStop]"
  let ?e = "InvalidMigrationClass ''batched-migrations/20230406184103_backfill.ts''"
  have h0: "\<not> running demo_runner" by code_simp
  have a1: "map_option s_returned (run_events ?run ?e1 ?I) = Some 1" by code_simp
  then obtain s1 where r1: "run_events ?run ?e1 ?I = Some s1" and n1: "0 < s_returned s1"
    by (cases "run_events ?run ?e1 ?I") auto
  have a2: "map_option s_returned (run_events ?run (?e1 @ ?e2) ?I) = Some 2" by code_simp
  then obtain s2 where r12: "run_events ?run (?e1 @ ?e2) ?I = Some s2"
    by (cases "run_events ?run (?e1 @ ?e2) ?I") auto
  from r12 r1 have r2: "run_events ?run ?e2 s1 = Some s2"
    unfolding run_events_append by simp
  note t1 = stop_returns_after_loop_exit[OF h0 r1, of 0, THEN conjunct1, rule_format, OF n1]
  from t1 have st1: "stopped (s_proc s1)" by blast
  from t1 r2 have wd: "work_done (s_proc s2) = work_done (s_proc s1)" by blast
  from r1 st1 have a3: "map_option (stopped \<circ> s_proc) (run_events ?run ?e1 ?I) = Some True"
    by simp
  have a4: "map_option (fst \<circ> work_done \<circ> s_proc) (run_events ?run ?e1 ?I)
              = Some [(0, 1, 1000), (0, 1001, 2000), (0, 2001, 2500)]"
    by code_simp
  from r1 r12 wd have a5: "map_option (work_done \<circ> s_proc) (run_events ?run (?e1 @ ?e2) ?I)
       = map_option (work_done \<circ> s_proc) (run_events ?run ?e1 ?I)" by simp
  let ?B = "run_events ?run [CallStart] ?I"
  have b1: "map_option (\<lambda>s. (running (p_runner (s_proc s)), p_loop (s_proc s))) ?B
              = Some (True, InRound)" by code_simp
  then obtain sb where rb: "?B = Some sb" and rn: "running (p_runner (s_proc sb))"
    and ir: "p_loop (s_proc sb) = InRound"
    by (cases ?B) auto
  note tb = stop_returns_after_loop_exit[OF h0 rb, of 0]
  from tb rn have "stop 0 ?run (s_proc sb) = None" by blast
  with rb have b2: "map_option (\<lambda>s. stop 0 ?run (s_proc s) = None) ?B = Some True" by simp
  have b3': "map_option (\<lambda>s. map_option (\<lambda>p. (p_loop p, fst (work_done p)))
                         (stop 1 ?run (s_proc s))) ?B = Some (Some (Exited, []))"
    by code_simp
  with rb obtain p' where p': "stop 1 ?run (s_proc sb) = Some p'"
    and pl: "p_loop p' = Exited" "fst (work_done p') = []"
    by (cases "stop 1 ?run (s_proc sb)") auto
  from tb p' have "stopped p'" by blast
  with rb p' pl have b3: "map_option (\<lambda>s. map_option (\<lambda>p. (p_loop p, stopped p, fst (work_done p)))
                         (stop 1 ?run (s_proc s))) ?B = Some (Some (Exited, True, []))"
    by simp
  have b4: "map_option (\<lambda>s. map_option fst
                         (loop_try ?run (p_runner (abort (s_proc s))) (p_world (s_proc s)))) ?B
              = Some (Some (Inr True))"
    by code_simp
  with rb obtain ra wa where
    lt: "loop_try ?run (p_runner (abort (s_proc sb))) (p_world (s_proc sb)) = Some (Inr True, ra, wa)"
    by (cases "loop_try ?run (p_runner (abort (s_proc sb))) (p_world (s_proc sb))") auto
  from tb ir lt have "\<exists>p'. stop 2 ?run (s_proc sb) = Some p'"
    unfolding numeral_2_eq_2 by blast
  with rb have b5: "map_option (\<lambda>s. \<exists>p'. stop 2 ?run (s_proc s) = Some p') ?B = Some True"
    by simp
  let ?C = "run_events ?run [CallStart, LoopResumes] (init_sched demo_runner (demo_world []))"
  have c1: "map_option (p_loop \<circ> s_proc) ?C = Some Sleeping" by code_simp
  then obtain sc where rc: "?C = Some sc" and sl: "p_loop (s_proc sc) = Sleeping"
    by (cases ?C) auto
  from stop_returns_after_loop_exit[OF h0 rc, of 0] sl
  have "stop 1 ?run (s_proc sc) = Some (poll_sleep (sleep_ends (abort (s_proc sc))))"
    by simp
  with rc have c2: "map_option (\<lambda>s. stop 1 ?run (s_proc s)
                         = Some (poll_sleep (sleep_ends (abort (s_proc s))))) ?C = Some True"
    by simp
  let ?D = "run_events ?run [CallStart] (init_sched demo_runner broken_world)"
  have d0: "map_option (p_loop \<circ> s_proc) ?D = Some InRound" by code_simp
  have d1: "map_option (\<lambda>s. map_option fst
                         (loop_try ?run (p_runner (abort (s_proc s))) (p_world (s_proc s)))) ?D
              = Some (Some (Inl ?e))"
    by code_simp
  from d0 obtain sd where rd: "?D = Some sd" and ird: "p_loop (s_proc sd) = InRound"
    by (cases ?D) auto
  from d1 rd obtain rx wx where
    ltd: "loop_try ?run (p_runner (abort (s_proc sd))) (p_world (s_proc sd)) = Some (Inl ?e, rx, wx)"
    by (cases "loop_try ?run (p_runner (abort (s_proc sd))) (p_world (s_proc sd))") auto
  from stop_returns_after_loop_exit[OF h0 rd, of 3] ird ltd
  have "stop 3 ?run (s_proc sd) = None" by blast
  with rd have d2: "map_option (\<lambda>s. stop 3 ?run (s_proc s) = None) ?D = Some True" by simp
  let ?F = "run_events ?run [CallStart, LoopResumes] (init_sched demo_runner failing_world)"
  have f1: "map_option (p_loop \<circ> s_proc) ?F = Some (Dead (External ''batch failed''))"
    by code_simp
  then obtain sf where rf: "?F = Some sf" and df: "dead (p_loop (s_proc sf))"
    by (cases ?F) (auto simp: dead_def)
  from stop_returns_after_loop_exit[OF h0 rf, of 3] df
  have "stop 3 ?run (s_proc sf) = None" by blast
  with rf have f2: "map_option (\<lambda>s. stop 3 ?run (s_proc s) = None) ?F = Some True" by simp
  from h0 a1 a3 a4 a2 a5 b1 b2 b3 b4 b5 c1 c2 d1 d2 f1 f2 show ?thesis by blast
qed

text \<open>
  C6, as stated, fails: the class registers no listener for \<^verbatim>\<open>'error'\<close>, and without
  one \<^verbatim>\<open>emit('error', err)\<close> throws the error. A runner that was started with no
  listener registered meets the migration whose batches throw: the error leaves the
  \<^verbatim>\<open>catch\<close> of the round and then that of \<^verbatim>\<open>loop\<close>, which rejects in its first pass,
  the running flag still set and no event delivered.
\<close>
theorem loop_without_listener_counterexample:
  "start demo_runner = Inr started_runner
   \<and> pass_summary (loop_iteration (BatchedMigrationRunner_run 5) started_runner failing_world)
       = Some (LoopRejected (External ''batch failed''), True, [])"
  by code_simp

text \<open>
  C6, amended. While the signal is not aborted and listeners for \<^verbatim>\<open>'error'\<close> are
  registered of which none throws, no error of a round ends the loop. An error that
  \<^verbatim>\<open>maybePerformWork\<close> throws is delivered as an \<^verbatim>\<open>'error'\<close> event and the pass
  ends with the sleep; every pass that returns continues the loop with the running flag as
  it was, and so does any number of passes, the delivered events only growing. Inside a
  round, an error thrown by the batch runner under the lock is delivered as an event too
  and the round counts as work. A lock held elsewhere is no error and no work, with or
  without a listener. With no listener registered, an error that the batch runner throws
  under the lock is thrown on by \<^verbatim>\<open>maybePerformWork\<close>, and \<^verbatim>\<open>loop\<close> rejects with
  whatever \<^verbatim>\<open>maybePerformWork\<close> throws, the running flag staying as it was.
\<close>
theorem loop_reports_errors_to_listener:
  assumes na: "\<not> aborted r"
  shows "(listening r \<longrightarrow>
           (\<forall>e r1 w1. maybePerformWork run (60 * 1000) r w = Some (Inl e, r1, w1)
              \<longrightarrow> loop_iteration run r w
                    = Some (LoopContinues, r1\<lparr>events := events r1 @ [e]\<rparr>, idle_sleep w1))
         \<and> (\<forall>res r' w'. loop_iteration run r w = Some (res, r', w')
              \<longrightarrow> res = LoopContinues \<and> running r' = running r \<and> \<not> aborted r')
         \<and> (\<forall>n res r' w'. loop_passes n run r w = Some (res, r', w')
              \<longrightarrow> res = LoopContinues \<and> running r' = running r
                  \<and> (\<exists>es. events r' = events r @ es))
         \<and> (\<forall>d m w1 mf r1 impl e w2.
               getOrStartMigration r w = (Some m, w1)
             \<and> getMigrationForIdentifier (timestamp m) r w1 = (Inr (Some mf), r1)
             \<and> lockNameForTimestamp r1 (mf_timestamp mf) \<notin> set (held_elsewhere w1)
             \<and> loadMigrationClass mf w1 = Inr impl
             \<and> run \<lparr>run_signal = Some (aborted r1), run_durationMs = Some d\<rparr> m impl
                   (w1\<lparr>lock_log := lock_log w1 @ [lockNameForTimestamp r1 (mf_timestamp mf)]\<rparr>)
                 = Some (Inl e, w2)
             \<longrightarrow> maybePerformWork run d r w
                   = Some (Inr True, r1\<lparr>events := events r1 @ [e]\<rparr>, w2)))
       \<and> (\<forall>d m w1 mf r1.
             getOrStartMigration r w = (Some m, w1)
           \<and> getMigrationForIdentifier (timestamp m) r w1 = (Inr (Some mf), r1)
           \<and> lockNameForTimestamp r1 (mf_timestamp mf) \<in> set (held_elsewhere w1)
           \<longrightarrow> maybePerformWork run d r w = Some (Inr False, r1, w1))
       \<and> (listeners r = [] \<longrightarrow>
           (\<forall>e r1 w1. maybePerformWork run (60 * 1000) r w = Some (Inl e, r1, w1)
              \<longrightarrow> loop_iteration run r w = Some (LoopRejected e, r1, w1)
                  \<and> running r1 = running r)
         \<and> (\<forall>d m w1 mf r1 impl e w2.
               getOrStartMigration r w = (Some m, w1)
             \<and> getMigrationForIdentifier (timestamp m) r w1 = (Inr (Some mf), r1)
             \<and> lockNameForTimestamp r1 (mf_timestamp mf) \<notin> set (held_elsewhere w1)
             \<and> loadMigrationClass mf w1 = Inr impl
             \<and> run \<lparr>run_signal = Some (aborted r1), run_durationMs = Some d\<rparr> m impl
                   (w1\<lparr>lock_log := lock_log w1 @ [lockNameForTimestamp r1 (mf_timestamp mf)]\<rparr>)
                 = Some (Inl e, w2)
             \<longrightarrow> maybePerformWork run d r w = Some (Inl e, r1, w2)))"
proof (intro conjI allI impI)
  fix e r1 w1
  assume li: "listening r"
    and m: "maybePerformWork run (60 * 1000) r w = Some (Inl e, r1, w1)"
  from maybePerformWork_flags[OF m] li na have "listening r1" and "\<not> aborted r1"
    by (simp_all add: listening_def)
  from emit_listening[OF this(1), of e] this(2) m na
  show "loop_iteration run r w
          = Some (LoopContinues, r1\<lparr>events := events r1 @ [e]\<rparr>, idle_sleep w1)"
    by (simp add: loop_iteration_def loop_check_def loop_round_def loop_try_def loop_sleep_def)
next
  fix res r' w'
  assume li: "listening r" and it: "loop_iteration run r w = Some (res, r', w')"
  from loop_iteration_continues[OF na li it]
  show "res = LoopContinues" "running r' = running r" "\<not> aborted r'" by simp_all
next
  fix n res r' w'
  assume li: "listening r" and ps: "loop_passes n run r w = Some (res, r', w')"
  from loop_passes_continues[OF na li ps]
  show "res = LoopContinues" "running r' = running r" "\<exists>es. events r' = events r @ es"
    by simp_all
next
  fix d m w1 mf r1 impl e w2
  assume li: "listening r"
    and h: "getOrStartMigration r w = (Some m, w1)
           \<and> getMigrationForIdentifier (timestamp m) r w1 = (Inr (Some mf), r1)
           \<and> lockNameForTimestamp r1 (mf_timestamp mf) \<notin> set (held_elsewhere w1)
           \<and> loadMigrationClass mf w1 = Inr impl
           \<and> run \<lparr>run_signal = Some (aborted r1), run_durationMs = Some d\<rparr> m impl
                 (w1\<lparr>lock_log := lock_log w1 @ [lockNameForTimestamp r1 (mf_timestamp mf)]\<rparr>)
               = Some (Inl e, w2)"
  from h getMigrationForIdentifier_flags[of "timestamp m" r w1 "Inr (Some mf)" r1] li
  have "listening r1" by (simp add: listening_def)
  from emit_listening[OF this, of e] h
  show "maybePerformWork run d r w
                 = Some (Inr True, r1\<lparr>events := events r1 @ [e]\<rparr>, w2)"
    by (simp add: maybePerformWork_def tryWithLock_def locked_work_def loadMigrationClass_def)
next
  fix d m w1 mf r1
  assume "getOrStartMigration r w = (Some m, w1)
           \<and> getMigrationForIdentifier (timestamp m) r w1 = (Inr (Some mf), r1)
           \<and> lockNameForTimestamp r1 (mf_timestamp mf) \<in> set (held_elsewhere w1)"
  then show "maybePerformWork run d r w = Some (Inr False, r1, w1)"
    by (simp add: maybePerformWork_def tryWithLock_def)
next
  fix e r1 w1
  assume nl: "listeners r = []"
    and m: "maybePerformWork run (60 * 1000) r w = Some (Inl e, r1, w1)"
  from maybePerformWork_flags[OF m] nl have l1: "listeners r1 = []" and rn: "running r1 = running r"
    by simp_all
  from emit_no_listener[OF l1, of e] m na
  show "loop_iteration run r w = Some (LoopRejected e, r1, w1)"
    by (simp add: loop_iteration_def loop_check_def loop_round_def loop_try_def)
  from rn show "running r1 = running r" .
next
  fix d m w1 mf r1 impl e w2
  assume nl: "listeners r = []"
    and h: "getOrStartMigration r w = (Some m, w1)
           \<and> getMigrationForIdentifier (timestamp m) r w1 = (Inr (Some mf), r1)
           \<and> lockNameForTimestamp r1 (mf_timestamp mf) \<notin> set (held_elsewhere w1)
           \<and> loadMigrationClass mf w1 = Inr impl
           \<and> run \<lparr>run_signal = Some (aborted r1), run_durationMs = Some d\<rparr> m impl
                 (w1\<lparr>lock_log := lock_log w1 @ [lockNameForTimestamp r1 (mf_timestamp mf)]\<rparr>)
               = Some (Inl e, w2)"
  from h getMigrationForIdentifier_flags[of "timestamp m" r w1 "Inr (Some mf)" r1] nl
  have "listeners r1 = []" by simp
  from emit_no_listener[OF this, of e] h
  show "maybePerformWork run d r w = Some (Inl e, r1, w2)"
    by (simp add: maybePerformWork_def tryWithLock_def locked_work_def loadMigrationClass_def)
qed

theorem loop_reports_errors_to_listener_witness:
  "\<not> aborted listening_runner \<and> listening listening_runner
   \<and> map_option fst (maybePerformWork (BatchedMigrationRunner_run 5) (60 * 1000) listening_runner
                        broken_world)
       = Some (Inl (InvalidMigrationClass ''batched-migrations/20230406184103_backfill.ts''))
   \<and> pass_summary (loop_iteration (BatchedMigrationRunner_run 5) listening_runner broken_world)
       = Some (LoopContinues, False,
               [InvalidMigrationClass ''batched-migrations/20230406184103_backfill.ts''])
   \<and> pass_summary (loop_passes 2 (BatchedMigrationRunner_run 5) listening_runner failing_world)
       = Some (LoopContinues, False, [External ''batch failed'', External ''batch failed''])
   \<and> \<not> aborted demo_runner \<and> listeners demo_runner = []
   \<and> map_option fst (maybePerformWork (BatchedMigrationRunner_run 5) (60 * 1000) demo_runner
                        broken_world)
       = Some (Inl (InvalidMigrationClass ''batched-migrations/20230406184103_backfill.ts''))
   \<and> map_option fst (loop_iteration (BatchedMigrationRunner_run 5) demo_runner broken_world)
       = Some (LoopRejected
                 (InvalidMigrationClass ''batched-migrations/20230406184103_backfill.ts''))"
proof -
  let ?run = "BatchedMigrationRunner_run 5 :: int runner_fn"
  let ?e = "InvalidMigrationClass ''batched-migrations/20230406184103_backfill.ts''"
  let ?M = "maybePerformWork ?run (60 * 1000) listening_runner broken_world"
  let ?N = "maybePerformWork ?run (60 * 1000) demo_runner broken_world"
  have na: "\<not> aborted listening_runner" by code_simp
  have li: "listening listening_runner" by code_simp
  have m: "map_option fst ?M = Some (Inl ?e)" by code_simp
  have ev: "map_option (events \<circ> fst \<circ> snd) ?M = Some []" by code_simp
  from m obtain r1 w1 where M: "?M = Some (Inl ?e, r1, w1)"
    by (cases ?M) auto
  from ev M have e1: "events r1 = []" by simp
  from loop_reports_errors_to_listener[OF na, of ?run broken_world,
         THEN conjunct1, rule_format, OF li, THEN conjunct1, rule_format, OF M] e1
  have a: "pass_summary (loop_iteration ?run listening_runner broken_world)
             = Some (LoopContinues, running r1, [?e])"
    by (simp add: pass_summary_def)
  from maybePerformWork_flags[OF M] have "running r1 = False"
    by (simp add: listening_runner_def demo_runner_def new_runner_def)
  with a have a': "pass_summary (loop_iteration ?run listening_runner broken_world)
             = Some (LoopContinues, False, [?e])" by simp
  have b: "pass_summary (loop_passes 2 ?run listening_runner failing_world)
       = Some (LoopContinues, False, [External ''batch failed'', External ''batch failed''])"
    by code_simp
  have na2: "\<not> aborted demo_runner" by code_simp
  have nl: "listeners demo_runner = []" by code_simp
  have n: "map_option fst ?N = Some (Inl ?e)" by code_simp
  from n obtain r2 w2 where N: "?N = Some (Inl ?e, r2, w2)"
    by (cases ?N) auto
  from loop_reports_errors_to_listener[OF na2, of ?run broken_world,
         THEN conjunct2, THEN conjunct2, rule_format, OF nl, THEN conjunct1, rule_format, OF N]
  have c: "map_option fst (loop_iteration ?run demo_runner broken_world)
             = Some (LoopRejected ?e)" by simp
  from na li m a' b na2 nl n c show ?thesis by blast
qed

text \<open>
  C7, as stated, fails: a definition whose parameters have \<open>min = 10\<close> and \<open>max = 5\<close> is
  enqueued without complaint, and once the scheduling query has claimed the row its status
  has left \<open>pending\<close> while \<open>min_value = 10 > max_value = 5\<close>.
\<close>

theorem enqueue_range_counterexample:
  "fst (enqueueBatchedMigration ''20230406184103_backfill'' demo_runner
          (world_of inverted_migration)) = Inr ()
   \<and> map row_summary
        (rows (snd (getOrStartMigration demo_runner
           (snd (snd (enqueueBatchedMigration ''20230406184103_backfill'' demo_runner
                        (world_of inverted_migration)))))))
     = [(10, 5, Running)]"
  by code_simp

text \<open>
  C7, amended. The row created by \<^verbatim>\<open>enqueueBatchedMigration\<close> satisfies
  \<open>min_value \<le> max_value\<close> exactly when the definition reports no maximum (null or
  absent; then \<open>max_value = min_value\<close>) or a maximum that is at least the minimum it
  reports (1 when omitted): enqueue does not validate the parameters. Status updates, the
  scheduling query and the batch runner never change the bounds of a row, so what holds at
  creation holds once the status has left \<open>pending\<close>.
\<close>

theorem enqueue_range_invariant:
  assumes "enqueueBatchedMigration identifier r w = (Inr (), r', w')"
  shows "\<exists>mf impl ps m.
           getMigrationForIdentifier identifier r w = (Inr (Some mf), r')
         \<and> loadMigrationClass mf w = Inr impl
         \<and> getParameters impl (db w) = Inr ps
         \<and> rows w' = rows w @ [m]
         \<and> (min_value m \<le> max_value m \<longleftrightarrow>
              (case param_max ps of Val mx \<Rightarrow> nullish (param_min ps) 1 \<le> mx
               | Undefined \<Rightarrow> True | Null \<Rightarrow> True))
         \<and> (param_max ps = Null \<or> param_max ps = Undefined \<longrightarrow> max_value m = min_value m)
         \<and> (store_ok w \<longrightarrow> store_ok w')
         \<and> (\<forall>v i s. bounds_of (snd (updateBatchedMigrationStatus i s v)) = bounds_of v
                   \<and> (store_ok v \<longrightarrow> store_ok (snd (updateBatchedMigrationStatus i s v))))
         \<and> (\<forall>v r2. store_ok v \<longrightarrow> bounds_of (snd (getOrStartMigration r2 v)) = bounds_of v
                   \<and> store_ok (snd (getOrStartMigration r2 v)))
         \<and> (\<forall>v n c dl i impl' res v'.
               run_batches n c dl i impl' v = Some (res, v') \<longrightarrow> bounds_of v' = bounds_of v)"
proof -
  from enqueue_Inr[OF assms] obtain mf impl ps where
    g: "getMigrationForIdentifier identifier r w = (Inr (Some mf), r')"
    and l: "loadMigrationClass mf w = Inr impl"
    and p: "getParameters impl (db w) = Inr ps"
    and i: "insertBatchedMigration (enqueue_record r' mf ps) w = Inr w'"
    by blast
  from insert_rows[OF i] obtain m where m: "rows w' = rows w @ [m]"
    "min_value m = nullish (param_min ps) 1"
    "max_value m = nullish (param_max ps) (nullish (param_min ps) 1)"
    by (auto simp: enqueue_record_sel)
  have a: "min_value m \<le> max_value m \<longleftrightarrow>
              (case param_max ps of Val mx \<Rightarrow> nullish (param_min ps) 1 \<le> mx
               | Undefined \<Rightarrow> True | Null \<Rightarrow> True)"
    using m(2,3) by (cases "param_max ps") simp_all
  have b: "param_max ps = Null \<or> param_max ps = Undefined \<longrightarrow> max_value m = min_value m"
    using m(2,3) by auto
  have c: "store_ok w \<longrightarrow> store_ok w'" using store_ok_insert[OF _ i] by blast
  from g l p m(1) a b c show ?thesis
    by (intro exI[of _ mf] exI[of _ impl] exI[of _ ps] exI[of _ m])
       (simp add: update_bounds run_batches_bounds store_ok_update store_ok_getOrStart
          getOrStartMigration_bounds)
qed

theorem enqueue_range_invariant_witness:
  "enqueueBatchedMigration ''20230406184103_backfill'' demo_runner (world_of demo_migration)
     = (Inr (),
        fst (snd (enqueueBatchedMigration ''20230406184103_backfill'' demo_runner
                    (world_of demo_migration))),
        snd (snd (enqueueBatchedMigration ''20230406184103_backfill'' demo_runner
                    (world_of demo_migration))))
   \<and> map row_summary (rows (snd (snd (enqueueBatchedMigration ''20230406184103_backfill''
                    demo_runner (world_of demo_migration))))) = [(1, 2500, Pending)]
   \<and> (\<exists>m. rows (snd (snd (enqueueBatchedMigration ''20230406184103_backfill''
                    demo_runner (world_of demo_migration)))) = [m] \<and> min_value m \<le> max_value m)"
proof -
  let ?E = "enqueueBatchedMigration ''20230406184103_backfill'' demo_runner
              (world_of demo_migration)"
  have "fst ?E = Inr ()" by code_simp
  then have e: "?E = (Inr (), fst (snd ?E), snd (snd ?E))"
    by (metis prod.collapse)
  have s: "map row_summary (rows (snd (snd ?E))) = [(1, 2500, Pending)]" by code_simp
  from enqueue_range_invariant[OF e] obtain mf impl ps m where
    l: "loadMigrationClass mf (world_of demo_migration) = Inr impl"
    and p: "getParameters impl (db (world_of demo_migration)) = Inr ps"
    and r: "rows (snd (snd ?E)) = rows (world_of demo_migration) @ [m]"
    and a: "min_value m \<le> max_value m \<longleftrightarrow>
              (case param_max ps of Val mx \<Rightarrow> nullish (param_min ps) 1 \<le> mx
               | Undefined \<Rightarrow> True | Null \<Rightarrow> True)"
    by blast
  from l have "impl = demo_migration"
    by (simp add: loadMigrationClass_def world_of_def)
  with p have ps: "ps = \<lparr>param_min = Val 1, param_max = Val 2500, param_batchSize = Val 1000\<rparr>"
    by (simp add: demo_migration_def)
  from a ps have "min_value m \<le> max_value m" by simp
  with r have "\<exists>m. rows (snd (snd ?E)) = [m] \<and> min_value m \<le> max_value m"
    by (simp add: world_of_def demo_world_def)
  with e s show ?thesis by simp
qed

text \<open>
  C8. Whenever \<^verbatim>\<open>enqueueBatchedMigration\<close> succeeds, the row it creates has the batch size
  that \<^verbatim>\<open>getParameters\<close> supplied, or 1000 when it is omitted, the minimum that was
  supplied, or 1 when it is omitted, and the maximum that was supplied (the minimum when it
  is omitted). The values are fixed from then on: neither a status update nor a run of the
  batch runner changes the batch size or the bounds of any row.
\<close>

theorem enqueue_stores_parameters:
  assumes "enqueueBatchedMigration identifier r w = (Inr (), r', w')"
  shows "\<exists>mf impl ps m.
           getMigrationForIdentifier identifier r w = (Inr (Some mf), r')
         \<and> loadMigrationClass mf w = Inr impl
         \<and> getParameters impl (db w) = Inr ps
         \<and> rows w' = rows w @ [m]
         \<and> batch_size m = (case param_batchSize ps of Val b \<Rightarrow> b | Undefined \<Rightarrow> 1000 | Null \<Rightarrow> 1000)
         \<and> min_value m = (case param_min ps of Val v \<Rightarrow> v | Undefined \<Rightarrow> 1 | Null \<Rightarrow> 1)
         \<and> max_value m = (case param_max ps of Val v \<Rightarrow> v | Undefined \<Rightarrow> min_value m
                            | Null \<Rightarrow> min_value m)
         \<and> (\<forall>i s. bounds_of (snd (updateBatchedMigrationStatus i s w')) = bounds_of w')
         \<and> (\<forall>n c dl i impl' res w''.
               run_batches n c dl i impl' w' = Some (res, w'') \<longrightarrow> bounds_of w'' = bounds_of w')"
proof -
  from enqueue_Inr[OF assms] obtain mf impl ps where
    g: "getMigrationForIdentifier identifier r w = (Inr (Some mf), r')"
    and l: "loadMigrationClass mf w = Inr impl"
    and p: "getParameters impl (db w) = Inr ps"
    and i: "insertBatchedMigration (enqueue_record r' mf ps) w = Inr w'"
    by blast
  from insert_rows[OF i] obtain m where m: "rows w' = rows w @ [m]"
    "batch_size m = nullish (param_batchSize ps) 1000"
    "min_value m = nullish (param_min ps) 1"
    "max_value m = nullish (param_max ps) (nullish (param_min ps) 1)"
    by (auto simp: enqueue_record_sel)
  have b: "batch_size m = (case param_batchSize ps of Val b \<Rightarrow> b | Undefined \<Rightarrow> 1000 | Null \<Rightarrow> 1000)"
    using m(2) by (cases "param_batchSize ps") simp_all
  have mn: "min_value m = (case param_min ps of Val v \<Rightarrow> v | Undefined \<Rightarrow> 1 | Null \<Rightarrow> 1)"
    using m(3) by (cases "param_min ps") simp_all
  have mx: "max_value m = (case param_max ps of Val v \<Rightarrow> v | Undefined \<Rightarrow> min_value m
                            | Null \<Rightarrow> min_value m)"
    using m(3,4) by (cases "param_max ps") simp_all
  from g l p m(1) b mn mx show ?thesis
    by (intro exI[of _ mf] exI[of _ impl] exI[of _ ps] exI[of _ m])
       (simp add: update_bounds run_batches_bounds)
qed

theorem enqueue_stores_parameters_witness:
  "enqueueBatchedMigration ''20230406184103_backfill'' demo_runner (world_of absent_migration)
     = (Inr (),
        fst (snd (enqueueBatchedMigration ''20230406184103_backfill'' demo_runner
                    (world_of absent_migration))),
        snd (snd (enqueueBatchedMigration ''20230406184103_backfill'' demo_runner
                    (world_of absent_migration))))
   \<and> bounds_of (snd (snd (enqueueBatchedMigration ''20230406184103_backfill'' demo_runner
                    (world_of absent_migration)))) = [(1000, 1, 1)]"
proof -
  let ?E = "enqueueBatchedMigration ''20230406184103_backfill'' demo_runner
              (world_of absent_migration)"
  have "fst ?E = Inr ()" by code_simp
  then have e: "?E = (Inr (), fst (snd ?E), snd (snd ?E))"
    by (metis prod.collapse)
  from enqueue_stores_parameters[OF e] obtain mf impl ps m where
    l: "loadMigrationClass mf (world_of absent_migration) = Inr impl"
    and p: "getParameters impl (db (world_of absent_migration)) = Inr ps"
    and r: "rows (snd (snd ?E)) = rows (world_of absent_migration) @ [m]"
    and b: "batch_size m = (case param_batchSize ps of Val b \<Rightarrow> b | Undefined \<Rightarrow> 1000 | Null \<Rightarrow> 1000)"
    and mn: "min_value m = (case param_min ps of Val v \<Rightarrow> v | Undefined \<Rightarrow> 1 | Null \<Rightarrow> 1)"
    and mx: "max_value m = (case param_max ps of Val v \<Rightarrow> v | Undefined \<Rightarrow> min_value m
                            | Null \<Rightarrow> min_value m)"
    by blast
  from l have "impl = absent_migration"
    by (simp add: loadMigrationClass_def world_of_def)
  with p have ps: "ps = \<lparr>param_min = Undefined, param_max = Undefined, param_batchSize = Undefined\<rparr>"
    by (simp add: absent_migration_def)
  from r b mn mx ps have "bounds_of (snd (snd ?E)) = [(1000, 1, 1)]"
    by (simp add: bounds_of_def world_of_def demo_world_def)
  with e show ?thesis by simp
qed

text \<open>
  C9. \<^verbatim>\<open>finalizeBatchedMigration\<close> updates the status before it resolves the
  definition file. So when a row for the timestamp exists and is not \<open>succeeded\<close>, and
  no migration file with that timestamp is known to this process, the call throws
  \<^verbatim>\<open>No migration found\<close>, and the state it leaves behind has the row in status
  \<open>finalizing\<close> (written by the status update unless it was already there); no batch is
  invoked and no lock taken.
\<close>

theorem finalize_unknown_definition:
  assumes ok: "store_ok w"
    and sel: "selectBatchedMigrationForTimestamp (opt_project (options r)) (timestamp_of identifier) w = Inr m"
    and ns: "status m \<noteq> Succeeded"
    and nf: "getMigrationForIdentifier identifier r w = (Inr None, r1)"
  shows "\<exists>w' m'.
           finalizeBatchedMigration run identifier r w
             = Some (Inl (NoMigrationFound identifier), r1, w')
         \<and> selectBatchedMigrationForTimestamp (opt_project (options r)) (timestamp_of identifier) w'
             = Inr m'
         \<and> status m' = Finalizing \<and> row_id m' = row_id m
         \<and> (status m \<noteq> Finalizing \<longrightarrow>
               updateBatchedMigrationStatus (row_id m) Finalizing w = (Inr m', w'))
         \<and> batch_log w' = batch_log w \<and> lock_log w' = lock_log w"
proof -
  note fp = forced_props[OF ok sel]
  have "finalizeBatchedMigration run identifier r w
          = Some (Inl (NoMigrationFound identifier), r1, snd (forced m w))"
    by (simp add: finalize_unfold[OF ok sel ns] nf)
  with fp show ?thesis by blast
qed

theorem finalize_unknown_definition_witness:
  "store_ok unknown_world
   \<and> selectBatchedMigrationForTimestamp (opt_project (options demo_runner))
        (timestamp_of ''20230406184103_backfill'') unknown_world = Inr stuck_row
   \<and> status stuck_row \<noteq> Succeeded
   \<and> getMigrationForIdentifier ''20230406184103_backfill'' demo_runner unknown_world
       = (Inr None, demo_runner\<lparr>migrationFiles := Some []\<rparr>)
   \<and> (\<exists>w' m'.
         finalizeBatchedMigration (BatchedMigrationRunner_run 5) ''20230406184103_backfill''
             demo_runner unknown_world
           = Some (Inl (NoMigrationFound ''20230406184103_backfill''),
                   demo_runner\<lparr>migrationFiles := Some []\<rparr>, w')
       \<and> selectBatchedMigrationForTimestamp (opt_project (options demo_runner))
            (timestamp_of ''20230406184103_backfill'') w' = Inr m'
       \<and> status m' = Finalizing)"
proof -
  have h1: "store_ok unknown_world" by code_simp
  have h2: "selectBatchedMigrationForTimestamp (opt_project (options demo_runner))
        (timestamp_of ''20230406184103_backfill'') unknown_world = Inr stuck_row" by code_simp
  have h3: "status stuck_row \<noteq> Succeeded" by code_simp
  have h4: "getMigrationForIdentifier ''20230406184103_backfill'' demo_runner unknown_world
       = (Inr None, demo_runner\<lparr>migrationFiles := Some []\<rparr>)" by code_simp
  from finalize_unknown_definition[OF h1 h2 h3 h4, of "BatchedMigrationRunner_run 5"]
  have "\<exists>w' m'.
         finalizeBatchedMigration (BatchedMigrationRunner_run 5) ''20230406184103_backfill''
             demo_runner unknown_world
           = Some (Inl (NoMigrationFound ''20230406184103_backfill''),
                   demo_runner\<lparr>migrationFiles := Some []\<rparr>, w')
       \<and> selectBatchedMigrationForTimestamp (opt_project (options demo_runner))
            (timestamp_of ''20230406184103_backfill'') w' = Inr m'
       \<and> status m' = Finalizing"
    by blast
  with h1 h2 h3 h4 show ?thesis by blast
qed

text \<open>
  C10. The module variable guards the control surface: enqueue, finalize, start and stop
  throw \<^verbatim>\<open>Batched migrations not initialized\<close> while it is null; init fills it and
  throws when it is already filled; \<^verbatim>\<open>stopBatchedMigrations\<close>, whenever it returns,
  returns normally and leaves the variable null. It returns at once when the loop is not
  running; when the loop is asleep, after one poll and with no round; when the loop is in
  a round, after the round has ended (and, if the round did no work, after the sleep that
  follows it has been cut short); and never when the loop has rejected, or rejects in this
  round, the running flag then staying set. Whenever \<^verbatim>\<open>stop\<close> returns, the flag is
  cleared and the signal aborted. \<^verbatim>\<open>start\<close> throws when the loop is already running,
  which it is after a first start of a fresh runner.
\<close>
theorem module_guards:
  "module_enqueueBatchedMigration identifier None w = (Inl NotInitialized, None, w)
   \<and> module_finalizeBatchedMigration run identifier None w = Some (Inl NotInitialized, None, w)
   \<and> startBatchedMigrations None = (Inl NotInitialized, None)
   \<and> stopBatchedMigrations fuel run None pc w = Some (Inl NotInitialized, None, w)
   \<and> initBatchedMigrations opts None = (Inr (new_runner opts), Some (new_runner opts))
   \<and> initBatchedMigrations opts (Some r) = (Inl AlreadyInitialized, Some r)
   \<and> (\<forall>res g' w'. stopBatchedMigrations fuel run (Some r) pc w = Some (res, g', w')
         \<longrightarrow> res = Inr () \<and> g' = None)
   \<and> (\<not> running r \<longrightarrow> stopBatchedMigrations fuel run (Some r) pc w = Some (Inr (), None, w))
   \<and> (running r
         \<longrightarrow> stopBatchedMigrations (Suc fuel) run (Some r) Sleeping w
               = Some (Inr (), None, w\<lparr>clock := clock w + 1000\<rparr>))
   \<and> (\<forall>r1 w1. running r
           \<and> loop_try run (r\<lparr>aborted := True\<rparr>) w = Some (Inr True, r1, w1)
         \<longrightarrow> stopBatchedMigrations (Suc fuel) run (Some r) InRound w
               = Some (Inr (), None, w1\<lparr>clock := clock w1 + 1000\<rparr>))
   \<and> (\<forall>r1 w1. running r
           \<and> loop_try run (r\<lparr>aborted := True\<rparr>) w = Some (Inr False, r1, w1)
         \<longrightarrow> stopBatchedMigrations (Suc (Suc fuel)) run (Some r) InRound w
               = Some (Inr (), None, w1\<lparr>clock := clock w1 + 2000\<rparr>))
   \<and> (\<forall>e r1 w1. running r
           \<and> loop_try run (r\<lparr>aborted := True\<rparr>) w = Some (Inl e, r1, w1)
         \<longrightarrow> stopBatchedMigrations fuel run (Some r) InRound w = None)
   \<and> (\<forall>e. running r \<longrightarrow> stopBatchedMigrations fuel run (Some r) (Dead e) w = None)
   \<and> (\<forall>p'. stop fuel run p = Some p' \<longrightarrow> \<not> running (p_runner p') \<and> aborted (p_runner p'))
   \<and> (running r \<longrightarrow> start r = Inl AlreadyRunning
                     \<and> startBatchedMigrations (Some r) = (Inl AlreadyRunning, Some r))
   \<and> (\<not> running r \<longrightarrow> start r = Inr (r\<lparr>running := \<not> aborted r\<rparr>))
   \<and> startBatchedMigrations (Some (new_runner opts))
       = (Inr ((new_runner opts)\<lparr>running := True\<rparr>), Some ((new_runner opts)\<lparr>running := True\<rparr>))
   \<and> startBatchedMigrations (snd (startBatchedMigrations (Some (new_runner opts))))
       = (Inl AlreadyRunning, Some ((new_runner opts)\<lparr>running := True\<rparr>))"
proof -
  let ?p = "\<lambda>pc. \<lparr>p_runner = r, p_world = w, p_loop = pc\<rparr>"
  have a: "\<forall>res g' w'. stopBatchedMigrations fuel run (Some r) pc w = Some (res, g', w')
         \<longrightarrow> res = Inr () \<and> g' = None"
    by (auto simp: stopBatchedMigrations_def assertRunner_def split: option.splits)
  have b: "\<not> running r \<longrightarrow> stopBatchedMigrations fuel run (Some r) pc w = Some (Inr (), None, w)"
    by (simp add: stopBatchedMigrations_def assertRunner_def stop_def spin_not_running abort_def)
  have c1: "running r
         \<longrightarrow> stopBatchedMigrations (Suc fuel) run (Some r) Sleeping w
               = Some (Inr (), None, w\<lparr>clock := clock w + 1000\<rparr>)"
    by (simp add: stopBatchedMigrations_def assertRunner_def stop_sleeping
          poll_sleep_def sleep_ends_def loop_sleep_def after_check_def abort_def)
  have c2: "\<forall>r1 w1. running r
           \<and> loop_try run (r\<lparr>aborted := True\<rparr>) w = Some (Inr True, r1, w1)
         \<longrightarrow> stopBatchedMigrations (Suc fuel) run (Some r) InRound w
               = Some (Inr (), None, w1\<lparr>clock := clock w1 + 1000\<rparr>)"
  proof (intro allI impI)
    fix r1 w1
    assume h: "running r \<and> loop_try run (r\<lparr>aborted := True\<rparr>) w = Some (Inr True, r1, w1)"
    then have lt: "loop_try run (p_runner (abort (?p InRound))) (p_world (?p InRound))
                     = Some (Inr True, r1, w1)"
      by (simp add: abort_def)
    from h have "stop (Suc fuel) run (?p InRound)
           = Some (poll_sleep (after_check ((abort (?p InRound))\<lparr>p_runner := r1, p_world := w1\<rparr>)))"
      by (intro stop_round_worked lt) simp_all
    then show "stopBatchedMigrations (Suc fuel) run (Some r) InRound w
               = Some (Inr (), None, w1\<lparr>clock := clock w1 + 1000\<rparr>)"
      by (simp add: stopBatchedMigrations_def assertRunner_def poll_sleep_def after_check_def)
  qed
  have c3: "\<forall>r1 w1. running r
           \<and> loop_try run (r\<lparr>aborted := True\<rparr>) w = Some (Inr False, r1, w1)
         \<longrightarrow> stopBatchedMigrations (Suc (Suc fuel)) run (Some r) InRound w
               = Some (Inr (), None, w1\<lparr>clock := clock w1 + 2000\<rparr>)"
  proof (intro allI impI)
    fix r1 w1
    assume h: "running r \<and> loop_try run (r\<lparr>aborted := True\<rparr>) w = Some (Inr False, r1, w1)"
    then have lt: "loop_try run (p_runner (abort (?p InRound))) (p_world (?p InRound))
                     = Some (Inr False, r1, w1)"
      by (simp add: abort_def)
    from loop_try_flags[OF h[THEN conjunct2]] have ab: "aborted r1" by simp
    from h have "stop (Suc (Suc fuel)) run (?p InRound)
           = Some (poll_sleep (sleep_ends (poll_sleep
                     ((abort (?p InRound))\<lparr>p_runner := r1, p_world := w1, p_loop := Sleeping\<rparr>))))"
      by (intro stop_round_idle lt) simp_all
    with ab show "stopBatchedMigrations (Suc (Suc fuel)) run (Some r) InRound w
               = Some (Inr (), None, w1\<lparr>clock := clock w1 + 2000\<rparr>)"
      by (simp add: stopBatchedMigrations_def assertRunner_def poll_sleep_def sleep_ends_def
            loop_sleep_def after_check_def)
  qed
  have c4: "\<forall>e r1 w1. running r
           \<and> loop_try run (r\<lparr>aborted := True\<rparr>) w = Some (Inl e, r1, w1)
         \<longrightarrow> stopBatchedMigrations fuel run (Some r) InRound w = None"
  proof (intro allI impI)
    fix e r1 w1
    assume h: "running r \<and> loop_try run (r\<lparr>aborted := True\<rparr>) w = Some (Inl e, r1, w1)"
    then have lt: "loop_try run (p_runner (abort (?p InRound))) (p_world (?p InRound))
                     = Some (Inl e, r1, w1)"
      by (simp add: abort_def)
    from h have "stop fuel run (?p InRound) = None"
      by (intro stop_round_throws[OF _ _ lt]) simp_all
    then show "stopBatchedMigrations fuel run (Some r) InRound w = None"
      by (simp add: stopBatchedMigrations_def assertRunner_def)
  qed
  have c5: "\<forall>e. running r \<longrightarrow> stopBatchedMigrations fuel run (Some r) (Dead e) w = None"
    by (simp add: stopBatchedMigrations_def assertRunner_def stop_dead dead_def)
  have d: "\<forall>p'. stop fuel run p = Some p' \<longrightarrow> \<not> running (p_runner p') \<and> aborted (p_runner p')"
  proof (intro allI impI)
    fix p'
    assume s: "stop fuel run p = Some p'"
    then have nr: "\<not> running (p_runner p')" by (auto simp: stop_def dest: spin_flag_cleared)
    from s have "aborted (p_runner p')"
      unfolding stop_def by (rule spin_keeps_aborted) (simp add: abort_def)
    with nr show "\<not> running (p_runner p') \<and> aborted (p_runner p')" by simp
  qed
  have e: "running r \<longrightarrow> start r = Inl AlreadyRunning
                     \<and> startBatchedMigrations (Some r) = (Inl AlreadyRunning, Some r)"
    by (simp add: start_def startBatchedMigrations_def assertRunner_def)
  have f: "\<not> running r \<longrightarrow> start r = Inr (r\<lparr>running := \<not> aborted r\<rparr>)"
    by (simp add: start_def loop_check_def)
  have g: "startBatchedMigrations (Some (new_runner opts))
       = (Inr ((new_runner opts)\<lparr>running := True\<rparr>), Some ((new_runner opts)\<lparr>running := True\<rparr>))"
    by (simp add: start_def startBatchedMigrations_def assertRunner_def loop_check_def new_runner_def)
  have h: "startBatchedMigrations (snd (startBatchedMigrations (Some (new_runner opts))))
       = (Inl AlreadyRunning, Some ((new_runner opts)\<lparr>running := True\<rparr>))"
    unfolding g by (simp add: start_def startBatchedMigrations_def assertRunner_def)
  have i: "module_enqueueBatchedMigration identifier None w = (Inl NotInitialized, None, w)"
    "module_finalizeBatchedMigration run identifier None w = Some (Inl NotInitialized, None, w)"
    "startBatchedMigrations None = (Inl NotInitialized, None)"
    "stopBatchedMigrations fuel run None pc w = Some (Inl NotInitialized, None, w)"
    "initBatchedMigrations opts None = (Inr (new_runner opts), Some (new_runner opts))"
    "initBatchedMigrations opts (Some r) = (Inl AlreadyInitialized, Some r)"
    by (simp_all add: module_enqueueBatchedMigration_def module_finalizeBatchedMigration_def
          startBatchedMigrations_def stopBatchedMigrations_def initBatchedMigrations_def
          assertRunner_def)
  from i a b c1 c2 c3 c4 c5 d e f g h show ?thesis by blast
qed

theorem module_guards_witness:
  "\<not> running (new_runner demo_options)
   \<and> running ((new_runner demo_options)\<lparr>running := True\<rparr>)
   \<and> start ((new_runner demo_options)\<lparr>running := True\<rparr>) = Inl AlreadyRunning
   \<and> start (new_runner demo_options) = Inr ((new_runner demo_options)\<lparr>running := True\<rparr>)
   \<and> stopBatchedMigrations 0 (BatchedMigrationRunner_run 5) (Some (new_runner demo_options))
         NoLoop (demo_world [demo_row])
       = Some (Inr (), None, demo_world [demo_row])
   \<and> stopBatchedMigrations 1 (BatchedMigrationRunner_run 5)
         (Some ((new_runner demo_options)\<lparr>running := True\<rparr>)) Sleeping (demo_world [demo_row])
       = Some (Inr (), None, (demo_world [demo_row])\<lparr>clock := clock (demo_world [demo_row]) + 1000\<rparr>)
   \<and> map_option fst (loop_try (BatchedMigrationRunner_run 5)
         ((new_runner demo_options)\<lparr>running := True, aborted := True\<rparr>) (demo_world [demo_row]))
       = Some (Inr True)
   \<and> map_option (\<lambda>x. (fst x, fst (snd x)))
        (stopBatchedMigrations 1 (BatchedMigrationRunner_run 5)
           (Some ((new_runner demo_options)\<lparr>running := True\<rparr>)) InRound (demo_world [demo_row]))
       = Some (Inr (), None)
   \<and> map_option fst (loop_try (BatchedMigrationRunner_run 5)
         ((new_runner demo_options)\<lparr>running := True, aborted := True\<rparr>) (demo_world []))
       = Some (Inr False)
   \<and> map_option (\<lambda>x. (fst x, fst (snd x)))
        (stopBatchedMigrations 2 (BatchedMigrationRunner_run 5)
           (Some ((new_runner demo_options)\<lparr>running := True\<rparr>)) InRound (demo_world []))
       = Some (Inr (), None)
   \<and> map_option fst (loop_try (BatchedMigrationRunner_run 5)
         ((new_runner demo_options)\<lparr>running := True, aborted := True\<rparr>) broken_world)
       = Some (Inl (InvalidMigrationClass ''batched-migrations/20230406184103_backfill.ts''))
   \<and> stopBatchedMigrations 3 (BatchedMigrationRunner_run 5)
         (Some ((new_runner demo_options)\<lparr>running := True\<rparr>)) InRound broken_world = None
   \<and> stopBatchedMigrations 3 (BatchedMigrationRunner_run 5)
         (Some ((new_runner demo_options)\<lparr>running := True\<rparr>))
         (Dead (External ''batch failed'')) failing_world = None
   \<and> map_option (\<lambda>p. (running (p_runner p), aborted (p_runner p)))
        (stop 1 (BatchedMigrationRunner_run 5)
           \<lparr>p_runner = (new_runner demo_options)\<lparr>running := True\<rparr>,
            p_world = demo_world [demo_row], p_loop = Sleeping\<rparr>)
       = Some (False, True)
   \<and> module_enqueueBatchedMigration ''20230406184103_backfill'' None (demo_world [demo_row])
       = (Inl NotInitialized, None, demo_world [demo_row])"
proof -
  let ?run = "BatchedMigrationRunner_run 5 :: int runner_fn"
  let ?r0 = "new_runner demo_options" and ?r1 = "(new_runner demo_options)\<lparr>running := True\<rparr>"
  let ?w = "demo_world [demo_row]"
  let ?e = "InvalidMigrationClass ''batched-migrations/20230406184103_backfill.ts''"
  let ?ps = "\<lparr>p_runner = ?r1, p_world = ?w, p_loop = Sleeping\<rparr>"
  have h1: "running ?r1" by simp
  have h2: "\<not> running ?r0" by (simp add: new_runner_def)
  have h3: "\<not> aborted ?r0" by (simp add: new_runner_def)
  note g0 = module_guards[of "''20230406184103_backfill''" ?w ?run 0 NoLoop demo_options ?r0 ?ps]
  from g0 h2 have b: "start ?r0 = Inr (?r0\<lparr>running := \<not> aborted ?r0\<rparr>)" by blast
  with h3 have b': "start ?r0 = Inr ?r1" by simp
  from g0 h2 have c: "stopBatchedMigrations 0 ?run (Some ?r0) NoLoop ?w = Some (Inr (), None, ?w)"
    by blast
  from g0 have e: "module_enqueueBatchedMigration ''20230406184103_backfill'' None ?w
                     = (Inl NotInitialized, None, ?w)"
    by blast
  note g1 = module_guards[of "''20230406184103_backfill''" ?w ?run 0 InRound demo_options ?r1 ?ps]
  from g1 h1 have a: "start ?r1 = Inl AlreadyRunning" by blast
  from g1 h1 have s1: "stopBatchedMigrations 1 ?run (Some ?r1) Sleeping ?w
       = Some (Inr (), None, ?w\<lparr>clock := clock ?w + 1000\<rparr>)" by simp
  have t1: "map_option fst (loop_try ?run (?r1\<lparr>aborted := True\<rparr>) ?w) = Some (Inr True)"
    by code_simp
  then obtain ra wa where t1': "loop_try ?run (?r1\<lparr>aborted := True\<rparr>) ?w = Some (Inr True, ra, wa)"
    by (cases "loop_try ?run (?r1\<lparr>aborted := True\<rparr>) ?w") auto
  from g1 h1 t1' have "stopBatchedMigrations 1 ?run (Some ?r1) InRound ?w
       = Some (Inr (), None, wa\<lparr>clock := clock wa + 1000\<rparr>)" by simp
  then have s2: "map_option (\<lambda>x. (fst x, fst (snd x)))
        (stopBatchedMigrations 1 ?run (Some ?r1) InRound ?w) = Some (Inr (), None)" by simp
  note g2 = module_guards[of "''20230406184103_backfill''" "demo_world []" ?run 0 InRound
                             demo_options ?r1 ?ps]
  have t2: "map_option fst (loop_try ?run (?r1\<lparr>aborted := True\<rparr>) (demo_world [])) = Some (Inr False)"
    by code_simp
  then obtain rb wb where
    t2': "loop_try ?run (?r1\<lparr>aborted := True\<rparr>) (demo_world []) = Some (Inr False, rb, wb)"
    by (cases "loop_try ?run (?r1\<lparr>aborted := True\<rparr>) (demo_world [])") auto
  from g2 h1 t2' have "stopBatchedMigrations 2 ?run (Some ?r1) InRound (demo_world [])
       = Some (Inr (), None, wb\<lparr>clock := clock wb + 2000\<rparr>)"
    by (simp add: numeral_2_eq_2)
  then have s3: "map_option (\<lambda>x. (fst x, fst (snd x)))
        (stopBatchedMigrations 2 ?run (Some ?r1) InRound (demo_world [])) = Some (Inr (), None)"
    by simp
  note g3 = module_guards[of "''20230406184103_backfill''" broken_world ?run 3 InRound
                             demo_options ?r1 ?ps]
  have t3: "map_option fst (loop_try ?run (?r1\<lparr>aborted := True\<rparr>) broken_world) = Some (Inl ?e)"
    by code_simp
  then obtain rc wc where
    t3': "loop_try ?run (?r1\<lparr>aborted := True\<rparr>) broken_world = Some (Inl ?e, rc, wc)"
    by (cases "loop_try ?run (?r1\<lparr>aborted := True\<rparr>) broken_world") auto
  from g3 h1 t3' have s4: "stopBatchedMigrations 3 ?run (Some ?r1) InRound broken_world = None"
    by blast
  note g4 = module_guards[of "''20230406184103_backfill''" failing_world ?run 3 InRound
                             demo_options ?r1 ?ps]
  from g4 h1 have s5: "stopBatchedMigrations 3 ?run (Some ?r1) (Dead (External ''batch failed''))
                         failing_world = None"
    by blast
  note g5 = module_guards[of "''20230406184103_backfill''" ?w ?run 1 InRound demo_options ?r1 ?ps]
  have "map_option p_loop (stop 1 ?run ?ps) = Some Exited" by code_simp
  then obtain p' where p': "stop 1 ?run ?ps = Some p'" by (cases "stop 1 ?run ?ps") auto
  from g5 p' have "\<not> running (p_runner p') \<and> aborted (p_runner p')" by blast
  with p' have s6: "map_option (\<lambda>p. (running (p_runner p), aborted (p_runner p))) (stop 1 ?run ?ps)
                      = Some (False, True)" by simp
  from h2 h1 a b' c s1 t1 s2 t2 s3 t3 s4 s5 s6 e show ?thesis
    by blast
qed

end
